theory Spec2Isabelle
  imports
    Complex_Main
    "HOL-Library.Multiset"
    "HOL-Library.Product_Lexorder"
    "HOL-Library.List_Lexorder"
    "HOL-Library.Sublist"
begin

section \<open>Integral site coordinates and clusters\<close>

text \<open>
  \<^verbatim>\<open>Index\<close> is the signed 64-bit \<^verbatim>\<open>long\<close> of the library. Signed overflow is undefined
  in C++, so indices and lattice coordinates are modelled by mathematical integers.
\<close>

type_synonym Index = int

text \<open>
  Modelled from the spec: \<^verbatim>\<open>xtal::UnitCell\<close>, declared in the crystallography library, is an
  integer 3-vector \<open>(i, j, k)\<close> with componentwise addition and subtraction.
\<close>

type_synonym UnitCell = "int \<times> int \<times> int"

fun uc_plus :: "UnitCell \<Rightarrow> UnitCell \<Rightarrow> UnitCell" where
  "uc_plus (i, j, k) (i', j', k') = (i + i', j + j', k + k')"

fun uc_minus :: "UnitCell \<Rightarrow> UnitCell \<Rightarrow> UnitCell" where
  "uc_minus (i, j, k) (i', j', k') = (i - i', j - j', k - k')"

text \<open>
  Modelled from the spec: \<^verbatim>\<open>xtal::UnitCellCoord\<close>, declared in the crystallography library,
  is a sublattice index \<open>b\<close> and a unit cell. Adding a unit cell to a coordinate translates its
  unit cell and keeps its sublattice.
\<close>

datatype UnitCellCoord = UnitCellCoord (sublattice: Index) (unitcell: UnitCell)

definition ucc_plus :: "UnitCellCoord \<Rightarrow> UnitCell \<Rightarrow> UnitCellCoord" where
  "ucc_plus c u = UnitCellCoord (sublattice c) (uc_plus (unitcell c) u)"

definition ucc_minus :: "UnitCellCoord \<Rightarrow> UnitCell \<Rightarrow> UnitCellCoord" where
  "ucc_minus c u = UnitCellCoord (sublattice c) (uc_minus (unitcell c) u)"

text \<open>
  Modelled from the spec: the comparison of \<^verbatim>\<open>xtal::UnitCellCoord\<close> values, which the sort of a
  cluster uses, is not part of the sources at hand. The specification fixes it as the
  lexicographic order on \<open>(b, i, j, k)\<close>.
\<close>

definition ucc_key :: "UnitCellCoord \<Rightarrow> int \<times> int \<times> int \<times> int" where
  "ucc_key c = (sublattice c, unitcell c)"

instantiation UnitCellCoord :: linorder
begin

definition less_eq_UnitCellCoord :: "UnitCellCoord \<Rightarrow> UnitCellCoord \<Rightarrow> bool" where
  "less_eq_UnitCellCoord c d \<longleftrightarrow> ucc_key c \<le> ucc_key d"

definition less_UnitCellCoord :: "UnitCellCoord \<Rightarrow> UnitCellCoord \<Rightarrow> bool" where
  "less_UnitCellCoord c d \<longleftrightarrow> ucc_key c < ucc_key d"

instance
proof
  fix x y z :: UnitCellCoord
  show "x < y \<longleftrightarrow> x \<le> y \<and> \<not> y \<le> x"
    unfolding less_eq_UnitCellCoord_def less_UnitCellCoord_def by (rule less_le_not_le)
  show "x \<le> x"
    unfolding less_eq_UnitCellCoord_def by simp
  show "x \<le> y \<Longrightarrow> y \<le> z \<Longrightarrow> x \<le> z"
    unfolding less_eq_UnitCellCoord_def by (rule order_trans)
  show "x \<le> y \<Longrightarrow> y \<le> x \<Longrightarrow> x = y"
  proof -
    assume "x \<le> y" and "y \<le> x"
    then have "ucc_key x = ucc_key y"
      unfolding less_eq_UnitCellCoord_def by (rule order_antisym)
    then show "x = y"
      by (cases x; cases y) (simp add: ucc_key_def)
  qed
  show "x \<le> y \<or> y \<le> x"
    unfolding less_eq_UnitCellCoord_def by (rule linear)
qed

end

text \<open>
  \<^verbatim>\<open>xtal::UnitCellCoordRep\<close> is an external collaborator; the orbit code only uses its
  action on a coordinate, so an operation is taken as that action.
\<close>

type_synonym UnitCellCoordRep = "UnitCellCoord \<Rightarrow> UnitCellCoord"

text \<open>
  Modelled from the spec: the class \<^verbatim>\<open>IntegralCluster\<close> is declared outside the sources at
  hand. A cluster is the sequence of its elements. \<^verbatim>\<open>apply(op, clust)\<close> acts elementwise,
  \<^verbatim>\<open>clust.sort()\<close> sorts the elements (the order is total on the elements, so the sorted
  sequence is determined by the elements alone), \<^verbatim>\<open>clust += u\<close> and \<^verbatim>\<open>clust -= u\<close> translate
  every element by \<open>u\<close> and by \<open>-u\<close>; the translation is a value, read before any element
  changes.
\<close>

type_synonym IntegralCluster = "UnitCellCoord list"

definition cluster_apply :: "UnitCellCoordRep \<Rightarrow> IntegralCluster \<Rightarrow> IntegralCluster" where
  "cluster_apply op clust = map op clust"

definition cluster_sort :: "IntegralCluster \<Rightarrow> IntegralCluster" where
  "cluster_sort clust = sort clust"

definition cluster_plus :: "IntegralCluster \<Rightarrow> UnitCell \<Rightarrow> IntegralCluster" where
  "cluster_plus clust u = map (\<lambda>c. ucc_plus c u) clust"

definition cluster_minus :: "IntegralCluster \<Rightarrow> UnitCell \<Rightarrow> IntegralCluster" where
  "cluster_minus clust u = map (\<lambda>c. ucc_minus c u) clust"

text \<open>
  Modelled from the spec: equality of clusters is elementwise after both sides are sorted.
\<close>

definition cluster_eq :: "IntegralCluster \<Rightarrow> IntegralCluster \<Rightarrow> bool" where
  "cluster_eq A B \<longleftrightarrow> cluster_sort A = cluster_sort B"

subsection \<open>Transforming clusters (orbits.cc)\<close>

definition prim_periodic_integral_cluster_copy_apply ::
    "UnitCellCoordRep \<Rightarrow> IntegralCluster \<Rightarrow> IntegralCluster" where
  "prim_periodic_integral_cluster_copy_apply op clust =
     (if length clust = 0 then clust
      else
        let clust1 = cluster_apply op clust;
            clust2 = cluster_sort clust1
        in cluster_minus clust2 (unitcell (clust2 ! 0)))"

definition prim_periodic_integral_cluster_frac_translation ::
    "UnitCellCoordRep \<Rightarrow> IntegralCluster \<Rightarrow> UnitCell" where
  "prim_periodic_integral_cluster_frac_translation op clust =
     (if length clust = 0 then (0, 0, 0)
      else
        let clust1 = cluster_sort clust;
            pos_init = unitcell (clust1 ! 0);
            clust2 = cluster_apply op clust1;
            clust3 = cluster_sort clust2;
            pos_final = unitcell (clust3 ! 0)
        in uc_minus pos_init pos_final)"

definition local_integral_cluster_copy_apply ::
    "UnitCellCoordRep \<Rightarrow> IntegralCluster \<Rightarrow> IntegralCluster" where
  "local_integral_cluster_copy_apply op clust =
     (if length clust = 0 then clust
      else
        let clust1 = cluster_apply op clust
        in cluster_sort clust1)"

section \<open>Errors\<close>

text \<open>
  The ways in which the functions fail: a write outside a vector (undefined behaviour in
  C++), a vector constructed with a negative size, a failed \<^verbatim>\<open>assert\<close> (the function is taken
  as a debug build compiles it, with the assertion in place), and \<^verbatim>\<open>std::runtime_error\<close>
  with its message.
\<close>

datatype error =
    IndexOutOfRange
  | LengthError
  | AssertionFailed
  | RuntimeError string

section \<open>Translation permutations of a supercell (SupercellSymInfo.cc)\<close>

text \<open>
  The index converters belong to the crystallography library, an external collaborator.
  The code uses three members of each: \<^verbatim>\<open>total_sites()\<close>, the call operator on a linear
  index and the call operator on a coordinate. A converter is taken as these three, with
  no assumption on them; what the specification promises of them is the contract below.
\<close>

record UnitCellIndexConverter =
  ijk_total_sites :: Index
  ijk_coord :: "Index \<Rightarrow> UnitCell"
  ijk_index :: "UnitCell \<Rightarrow> Index"

record UnitCellCoordIndexConverter =
  bijk_total_sites :: Index
  bijk_coord :: "Index \<Rightarrow> UnitCellCoord"
  bijk_index :: "UnitCellCoord \<Rightarrow> Index"

type_synonym Permutation = "Index list"

text \<open>
  The inner loop over \<^verbatim>\<open>old_site_ix\<close>: each step writes \<^verbatim>\<open>old_site_ix\<close> at position
  \<^verbatim>\<open>new_site_ix\<close> of the vector. A position outside the vector is an error.
\<close>

fun assign_sites ::
    "UnitCellCoordIndexConverter \<Rightarrow> UnitCell \<Rightarrow> Index list \<Rightarrow> Permutation
      \<Rightarrow> error + Permutation" where
  "assign_sites bijk_index_converter translation_uc [] perm = Inr perm"
| "assign_sites bijk_index_converter translation_uc (old_site_ix # rest) perm =
     (let old_site_ucc = bijk_coord bijk_index_converter old_site_ix;
          new_site_ix = bijk_index bijk_index_converter (ucc_plus old_site_ucc translation_uc)
      in if 0 \<le> new_site_ix \<and> new_site_ix < int (length perm)
         then assign_sites bijk_index_converter translation_uc rest
                (perm[nat new_site_ix := old_site_ix])
         else Inl IndexOutOfRange)"

text \<open>
  The body of the outer loop for one translation: the vector starts as \<^verbatim>\<open>total_sites()\<close>
  copies of \<open>-1\<close>, the inner loop fills it, and the assertion checks that no \<open>-1\<close> is left.
\<close>

definition single_translation_permutation ::
    "UnitCellCoordIndexConverter \<Rightarrow> UnitCell \<Rightarrow> error + Permutation" where
  "single_translation_permutation bijk_index_converter translation_uc =
     (if bijk_total_sites bijk_index_converter < 0 then Inl LengthError
      else
        case assign_sites bijk_index_converter translation_uc
               [0 .. bijk_total_sites bijk_index_converter - 1]
               (replicate (nat (bijk_total_sites bijk_index_converter)) (- 1)) of
          Inl e \<Rightarrow> Inl e
        | Inr perm \<Rightarrow> if - 1 \<in> set perm then Inl AssertionFailed else Inr perm)"

fun translation_loop ::
    "UnitCellIndexConverter \<Rightarrow> UnitCellCoordIndexConverter \<Rightarrow> Index list
      \<Rightarrow> Permutation list \<Rightarrow> error + Permutation list" where
  "translation_loop ijk_index_converter bijk_index_converter [] translation_permutations =
     Inr translation_permutations"
| "translation_loop ijk_index_converter bijk_index_converter (translation_ix # rest)
     translation_permutations =
     (case single_translation_permutation bijk_index_converter
             (ijk_coord ijk_index_converter translation_ix) of
        Inl e \<Rightarrow> Inl e
      | Inr single \<Rightarrow>
          translation_loop ijk_index_converter bijk_index_converter rest
            (translation_permutations @ [single]))"

definition make_translation_permutations ::
    "UnitCellIndexConverter \<Rightarrow> UnitCellCoordIndexConverter \<Rightarrow> error + Permutation list" where
  "make_translation_permutations ijk_index_converter bijk_index_converter =
     translation_loop ijk_index_converter bijk_index_converter
       [0 .. ijk_total_sites ijk_index_converter - 1] []"

text \<open>
  Modelled from the spec: the contract of the two index converters of one supercell with
  \<open>B\<close> sublattices. Both directions are total and in range, a linear index converts to a
  coordinate and back to itself, and the map from coordinates to indices reduces the unit
  cell modulo the supercell. The reduction is stated through the converters themselves:
  two unit cells are congruent when the unit cell converter gives them one index, the site
  converter identifies two sites exactly when their sublattices agree and their unit cells
  are congruent, and congruence is kept by translation.
\<close>

definition index_converter_contract ::
    "UnitCellIndexConverter \<Rightarrow> UnitCellCoordIndexConverter \<Rightarrow> Index \<Rightarrow> bool" where
  "index_converter_contract ijk bijk B \<longleftrightarrow>
     0 \<le> B
     \<and> bijk_total_sites bijk = ijk_total_sites ijk * B
     \<and> (\<forall>ix. 0 \<le> ix \<and> ix < ijk_total_sites ijk \<longrightarrow> ijk_index ijk (ijk_coord ijk ix) = ix)
     \<and> (\<forall>u. 0 \<le> ijk_index ijk u \<and> ijk_index ijk u < ijk_total_sites ijk)
     \<and> (\<forall>l. 0 \<le> l \<and> l < bijk_total_sites bijk \<longrightarrow>
            bijk_index bijk (bijk_coord bijk l) = l
            \<and> 0 \<le> sublattice (bijk_coord bijk l) \<and> sublattice (bijk_coord bijk l) < B)
     \<and> (\<forall>c. 0 \<le> sublattice c \<and> sublattice c < B \<longrightarrow>
            0 \<le> bijk_index bijk c \<and> bijk_index bijk c < bijk_total_sites bijk)
     \<and> (\<forall>c d. 0 \<le> sublattice c \<and> sublattice c < B \<and> 0 \<le> sublattice d \<and> sublattice d < B \<longrightarrow>
            (bijk_index bijk c = bijk_index bijk d \<longleftrightarrow>
               sublattice c = sublattice d
               \<and> ijk_index ijk (unitcell c) = ijk_index ijk (unitcell d)))
     \<and> (\<forall>u v t. ijk_index ijk u = ijk_index ijk v \<longrightarrow>
            ijk_index ijk (uc_plus u t) = ijk_index ijk (uc_plus v t))"

text \<open>
  The index \<^verbatim>\<open>new_site_ix\<close> that the inner loop computes for \<^verbatim>\<open>old_site_ix\<close>, as a function
  of the translation and the old index; the statements about the permutations refer to it.
\<close>

definition translated_site_ix ::
    "UnitCellCoordIndexConverter \<Rightarrow> UnitCell \<Rightarrow> Index \<Rightarrow> Index" where
  "translated_site_ix bijk_index_converter translation_uc old_site_ix =
     bijk_index bijk_index_converter
       (ucc_plus (bijk_coord bijk_index_converter old_site_ix) translation_uc)"

text \<open>
  Modelled from the spec: composition of permutations under the \<^verbatim>\<open>perm[new] = old\<close>
  convention is value-flow composition, \<open>(P \<circ> Q)[n] = Q[P[n]]\<close>.
\<close>

definition compose_permutations :: "Permutation \<Rightarrow> Permutation \<Rightarrow> Permutation" where
  "compose_permutations P Q = map (\<lambda>n. Q ! nat (P ! n)) [0 ..< length P]"

section \<open>Canonical forms of supercells (canonical\_form.cc)\<close>

text \<open>
  Lattices, symmetry operations and tolerances are values of the crystallography library;
  they are kept abstract. The functions of that library which the code calls are collected
  in one record: \<^verbatim>\<open>xtal::canonical::equivalent\<close>, \<^verbatim>\<open>sym::copy_apply\<close> on a lattice, the
  comparison \<^verbatim>\<open>==\<close> of lattices and \<^verbatim>\<open>Lattice::tol()\<close>.
\<close>

record ('lat, 'op, 'tol) xtal =
  canonical_equivalent :: "'lat \<Rightarrow> 'op list \<Rightarrow> 'tol \<Rightarrow> 'lat"
  sym_copy_apply :: "'op \<Rightarrow> 'lat \<Rightarrow> 'lat"
  lattice_eq :: "'lat \<Rightarrow> 'lat \<Rightarrow> bool"
  lattice_tol :: "'lat \<Rightarrow> 'tol"

text \<open>
  Modelled from the spec: the classes \<^verbatim>\<open>SymGroup\<close>, \<^verbatim>\<open>Prim\<close>, \<^verbatim>\<open>Superlattice\<close> and
  \<^verbatim>\<open>Supercell\<close> are declared outside the sources at hand. The records hold the members that
  the functions read: the elements of the point group of a prim, the two lattices of a
  superlattice, and the prim and the superlattice of a supercell.
\<close>

record 'op SymGroup =
  element :: "'op list"

record 'op PrimSymInfo =
  point_group :: "'op SymGroup"

record 'op Prim =
  sym_info :: "'op PrimSymInfo"

record 'lat Superlattice =
  prim_lattice :: 'lat
  superlattice_lattice :: 'lat

record ('lat, 'op) Supercell =
  prim :: "'op Prim"
  superlattice :: "'lat Superlattice"

definition make_canonical_form ::
    "('lat, 'op, 'tol) xtal \<Rightarrow> ('lat, 'op) Supercell \<Rightarrow> ('lat, 'op) Supercell" where
  "make_canonical_form X supercell =
     (let canonical_lattice =
            canonical_equivalent X (superlattice_lattice (superlattice supercell))
              (element (point_group (sym_info (prim supercell))))
              (lattice_tol X (superlattice_lattice (superlattice supercell)))
      in \<lparr>prim = prim supercell,
          superlattice = \<lparr>prim_lattice = prim_lattice (superlattice supercell),
                          superlattice_lattice = canonical_lattice\<rparr>\<rparr>)"

definition from_canonical_not_found :: string where
  "from_canonical_not_found =
     ''Error in CASM::config::from_canonical(Supercell const &): Not found''"

fun from_canonical_loop ::
    "('lat, 'op, 'tol) xtal \<Rightarrow> 'lat \<Rightarrow> 'lat \<Rightarrow> 'op list \<Rightarrow> error + 'op" where
  "from_canonical_loop X lhs canonical [] = Inl (RuntimeError from_canonical_not_found)"
| "from_canonical_loop X lhs canonical (op # rest) =
     (if lattice_eq X lhs (sym_copy_apply X op canonical) then Inr op
      else from_canonical_loop X lhs canonical rest)"

definition from_canonical ::
    "('lat, 'op, 'tol) xtal \<Rightarrow> ('lat, 'op) Supercell \<Rightarrow> error + 'op" where
  "from_canonical X supercell =
     (let lhs = superlattice_lattice (superlattice supercell);
          canonical =
            canonical_equivalent X (superlattice_lattice (superlattice supercell))
              (element (point_group (sym_info (prim supercell))))
              (lattice_tol X (superlattice_lattice (superlattice supercell)))
      in from_canonical_loop X lhs canonical
           (element (point_group (sym_info (prim supercell)))))"

text \<open>
  Modelled from the spec: the contract of \<^verbatim>\<open>xtal::canonical::equivalent\<close> for a point group
  \<open>pg\<close>. The order \<open>ge tol\<close> between lattices is the collaborator's, at a tolerance. The
  result is the unique greatest lattice of the orbit of its argument. That the lattices
  \<open>g \<cdot> L\<close> form an orbit means that the orbit of any of them is the same set; an operation
  keeps the tolerance of the lattice it transforms.
\<close>

definition lattice_orbit :: "('lat, 'op, 'tol) xtal \<Rightarrow> 'op list \<Rightarrow> 'lat \<Rightarrow> 'lat set" where
  "lattice_orbit X pg L = (\<lambda>g. sym_copy_apply X g L) ` set pg"

definition canonical_equivalent_contract ::
    "('lat, 'op, 'tol) xtal \<Rightarrow> ('tol \<Rightarrow> 'lat \<Rightarrow> 'lat \<Rightarrow> bool) \<Rightarrow> 'op list \<Rightarrow> bool" where
  "canonical_equivalent_contract X ge pg \<longleftrightarrow>
     (\<forall>L tol. canonical_equivalent X L pg tol \<in> lattice_orbit X pg L
        \<and> (\<forall>M \<in> lattice_orbit X pg L. ge tol (canonical_equivalent X L pg tol) M)
        \<and> (\<forall>M' \<in> lattice_orbit X pg L.
              (\<forall>M \<in> lattice_orbit X pg L. ge tol M' M) \<longrightarrow>
              M' = canonical_equivalent X L pg tol))
     \<and> (\<forall>L. \<forall>M \<in> lattice_orbit X pg L. lattice_orbit X pg M = lattice_orbit X pg L)
     \<and> (\<forall>g L. lattice_tol X (sym_copy_apply X g L) = lattice_tol X L)"

text \<open>
  Modelled from the spec: \<^verbatim>\<open>SupercellSymOp\<close> is declared outside the sources at hand; it
  exposes \<^verbatim>\<open>permute_index(s)\<close>, the index of the site whose value moves to site \<open>s\<close>, and the
  function uses nothing else of it.
\<close>

record SupercellSymOp =
  permute_index :: "Index \<Rightarrow> Index"

text \<open>
  \<^verbatim>\<open>std::set<Index>\<close> is a set; \<^verbatim>\<open>count\<close> on it is 1 for a member and 0 otherwise, and
  \<^verbatim>\<open>std::none_of\<close> over it holds when the predicate holds for no member.
\<close>

definition set_count :: "'a set \<Rightarrow> 'a \<Rightarrow> nat" where
  "set_count S x = (if x \<in> S then 1 else 0)"

definition none_of :: "'a set \<Rightarrow> ('a \<Rightarrow> bool) \<Rightarrow> bool" where
  "none_of S P \<longleftrightarrow> \<not> (\<exists>s \<in> S. P s)"

definition site_indices_are_invariant :: "SupercellSymOp \<Rightarrow> Index set \<Rightarrow> bool" where
  "site_indices_are_invariant op site_indices =
     none_of site_indices (\<lambda>s. set_count site_indices (permute_index op s) = 0)"

section \<open>Enumeration of prim-periodic orbits (orbits.cc)\<close>

text \<open>
  Modelled from the spec: the order \<^verbatim>\<open><\<close> of clusters, which \<^verbatim>\<open>std::less<IntegralCluster>\<close>
  hands to the group algorithms, is lexicographic on the sorted element sequences.
\<close>

definition cluster_less :: "IntegralCluster \<Rightarrow> IntegralCluster \<Rightarrow> bool" where
  "cluster_less A B \<longleftrightarrow> cluster_sort A < cluster_sort B"

record IntegralClusterOrbitGenerator =
  prototype :: IntegralCluster
  include_subclusters :: bool

text \<open>
  Modelled from the spec: the collaborators of the enumeration, none of them in the sources
  at hand, are taken as the fields of one record, with no assumption on them. They are the
  prim \<open>'prim\<close> with the tolerance of its lattice, the sites \<open>'site\<close> a site filter judges, the
  cluster invariants \<open>'inv\<close> with their constructor and the comparison
  \<^verbatim>\<open>CompareCluster_f(tol)\<close> of pairs, the factories of candidate sites and of cluster filters,
  and the group algorithms \<^verbatim>\<open>group::make_canonical_element\<close> and \<^verbatim>\<open>group::make_orbit\<close>.
  \<^verbatim>\<open>SubClusterCounter\<close> is a finite sequence of subclusters of a prototype, read with
  \<^verbatim>\<open>valid()\<close>, \<^verbatim>\<open>value()\<close> and \<^verbatim>\<open>next()\<close> until it is exhausted; it is the list of the values
  it produces.
\<close>

record ('prim, 'site, 'inv) clusterography =
  prim_lattice_tol :: "'prim \<Rightarrow> real"
  origin_neighborhood :: "'prim \<Rightarrow> ('site \<Rightarrow> bool) \<Rightarrow> UnitCellCoord list"
  max_length_neighborhood :: "real \<Rightarrow> 'prim \<Rightarrow> ('site \<Rightarrow> bool) \<Rightarrow> UnitCellCoord list"
  all_clusters_filter :: "'inv \<Rightarrow> IntegralCluster \<Rightarrow> bool"
  max_length_cluster_filter :: "real \<Rightarrow> 'inv \<Rightarrow> IntegralCluster \<Rightarrow> bool"
  ClusterInvariants :: "IntegralCluster \<Rightarrow> 'prim \<Rightarrow> 'inv"
  CompareCluster_f :: "real \<Rightarrow> 'inv \<times> IntegralCluster \<Rightarrow> 'inv \<times> IntegralCluster \<Rightarrow> bool"
  make_canonical_element ::
    "IntegralCluster \<Rightarrow> UnitCellCoordRep list
      \<Rightarrow> (IntegralCluster \<Rightarrow> IntegralCluster \<Rightarrow> bool)
      \<Rightarrow> (UnitCellCoordRep \<Rightarrow> IntegralCluster \<Rightarrow> IntegralCluster) \<Rightarrow> IntegralCluster"
  make_orbit ::
    "IntegralCluster \<Rightarrow> UnitCellCoordRep list
      \<Rightarrow> (IntegralCluster \<Rightarrow> IntegralCluster \<Rightarrow> bool)
      \<Rightarrow> (UnitCellCoordRep \<Rightarrow> IntegralCluster \<Rightarrow> IntegralCluster) \<Rightarrow> IntegralCluster set"
  SubClusterCounter :: "IntegralCluster \<Rightarrow> IntegralCluster list"

text \<open>
  \<^verbatim>\<open>std::set\<close> with a comparison object: the elements in ascending order, as a list.
  \<^verbatim>\<open>emplace\<close> puts a new element at its place, unless an element that the comparison does
  not tell apart from it (neither is less than the other) is there already.
  \<^verbatim>\<open>insert(first, last)\<close> does so for each element of a range.
\<close>

definition equivalent_under :: "('a \<Rightarrow> 'a \<Rightarrow> bool) \<Rightarrow> 'a \<Rightarrow> 'a \<Rightarrow> bool" where
  "equivalent_under compare_f x y \<longleftrightarrow> \<not> compare_f x y \<and> \<not> compare_f y x"

fun set_emplace :: "('a \<Rightarrow> 'a \<Rightarrow> bool) \<Rightarrow> 'a \<Rightarrow> 'a list \<Rightarrow> 'a list" where
  "set_emplace compare_f x [] = [x]"
| "set_emplace compare_f x (y # ys) =
     (if compare_f x y then x # y # ys
      else if compare_f y x then y # set_emplace compare_f x ys
      else y # ys)"

definition set_insert_range :: "('a \<Rightarrow> 'a \<Rightarrow> bool) \<Rightarrow> 'a list \<Rightarrow> 'a list \<Rightarrow> 'a list" where
  "set_insert_range compare_f elems S = fold (set_emplace compare_f) elems S"

definition make_prim_periodic_orbit ::
    "('prim, 'site, 'inv) clusterography \<Rightarrow> IntegralCluster \<Rightarrow> UnitCellCoordRep list
      \<Rightarrow> IntegralCluster set" where
  "make_prim_periodic_orbit env orbit_element unitcellcoord_symgroup_rep =
     make_orbit env orbit_element unitcellcoord_symgroup_rep cluster_less
       prim_periodic_integral_cluster_copy_apply"

text \<open>The local function \<^verbatim>\<open>_make_canonical\<close> of \<^verbatim>\<open>make_prim_periodic_orbits\<close>.\<close>

definition make_canonical ::
    "('prim, 'site, 'inv) clusterography \<Rightarrow> UnitCellCoordRep list \<Rightarrow> IntegralCluster
      \<Rightarrow> IntegralCluster" where
  "make_canonical env unitcellcoord_symgroup_rep cluster =
     make_canonical_element env cluster unitcellcoord_symgroup_rep cluster_less
       prim_periodic_integral_cluster_copy_apply"

text \<open>
  One pass of the innermost loop: a cluster of the previous branch and one candidate site.
\<close>

definition add_candidate_site ::
    "('prim, 'site, 'inv) clusterography \<Rightarrow> 'prim \<Rightarrow> UnitCellCoordRep list
      \<Rightarrow> ('inv \<Rightarrow> IntegralCluster \<Rightarrow> bool)
      \<Rightarrow> ('inv \<times> IntegralCluster \<Rightarrow> 'inv \<times> IntegralCluster \<Rightarrow> bool)
      \<Rightarrow> 'inv \<times> IntegralCluster \<Rightarrow> UnitCellCoord
      \<Rightarrow> ('inv \<times> IntegralCluster) list \<Rightarrow> ('inv \<times> IntegralCluster) list" where
  "add_candidate_site env prim_structure unitcellcoord_symgroup_rep cluster_filter compare_f pair
       integral_site curr_branch =
     (if integral_site \<in> set (snd pair) then curr_branch
      else
        let test_cluster = snd pair @ [integral_site];
            invariants = ClusterInvariants env test_cluster prim_structure
        in if \<not> cluster_filter invariants test_cluster then curr_branch
           else set_emplace compare_f
                  (invariants, make_canonical env unitcellcoord_symgroup_rep test_cluster)
                  curr_branch)"

definition grow_branch ::
    "('prim, 'site, 'inv) clusterography \<Rightarrow> 'prim \<Rightarrow> UnitCellCoordRep list
      \<Rightarrow> ('inv \<Rightarrow> IntegralCluster \<Rightarrow> bool)
      \<Rightarrow> ('inv \<times> IntegralCluster \<Rightarrow> 'inv \<times> IntegralCluster \<Rightarrow> bool)
      \<Rightarrow> ('inv \<times> IntegralCluster) list \<Rightarrow> UnitCellCoord list
      \<Rightarrow> ('inv \<times> IntegralCluster) list" where
  "grow_branch env prim_structure unitcellcoord_symgroup_rep cluster_filter compare_f prev_branch
       candidate_sites =
     fold (\<lambda>pair curr_branch.
             fold (add_candidate_site env prim_structure unitcellcoord_symgroup_rep cluster_filter
                     compare_f pair)
               candidate_sites curr_branch)
       prev_branch []"

text \<open>The loop over the branches; its state is the pair of \<^verbatim>\<open>final\<close> and \<^verbatim>\<open>prev_branch\<close>.\<close>

fun branch_loop ::
    "('prim, 'site, 'inv) clusterography \<Rightarrow> 'prim \<Rightarrow> UnitCellCoordRep list
      \<Rightarrow> ('site \<Rightarrow> bool) \<Rightarrow> real list
      \<Rightarrow> ('inv \<times> IntegralCluster \<Rightarrow> 'inv \<times> IntegralCluster \<Rightarrow> bool)
      \<Rightarrow> nat list
      \<Rightarrow> ('inv \<times> IntegralCluster) list \<times> ('inv \<times> IntegralCluster) list
      \<Rightarrow> ('inv \<times> IntegralCluster) list \<times> ('inv \<times> IntegralCluster) list" where
  "branch_loop env prim_structure unitcellcoord_symgroup_rep site_filter max_length compare_f []
       (final, prev_branch) = (final, prev_branch)"
| "branch_loop env prim_structure unitcellcoord_symgroup_rep site_filter max_length compare_f
       (branch # rest) (final, prev_branch) =
     (let f = (if branch = 1 then origin_neighborhood env
               else max_length_neighborhood env (max_length ! branch));
          candidate_sites = f prim_structure site_filter;
          cluster_filter = (if branch = 1 then all_clusters_filter env
                            else max_length_cluster_filter env (max_length ! branch));
          curr_branch = grow_branch env prim_structure unitcellcoord_symgroup_rep cluster_filter
                          compare_f prev_branch candidate_sites
      in branch_loop env prim_structure unitcellcoord_symgroup_rep site_filter max_length compare_f rest
           (set_insert_range compare_f prev_branch final, curr_branch))"

text \<open>
  The part of the function headed \<^verbatim>\<open>add custom generators -- filters do not apply\<close>: the step
  for one generator. Neither the site filter nor a cluster filter is among its arguments.
\<close>

definition add_custom_generator ::
    "('prim, 'site, 'inv) clusterography \<Rightarrow> 'prim \<Rightarrow> UnitCellCoordRep list
      \<Rightarrow> ('inv \<times> IntegralCluster \<Rightarrow> 'inv \<times> IntegralCluster \<Rightarrow> bool)
      \<Rightarrow> IntegralClusterOrbitGenerator
      \<Rightarrow> ('inv \<times> IntegralCluster) list \<Rightarrow> ('inv \<times> IntegralCluster) list" where
  "add_custom_generator env prim_structure unitcellcoord_symgroup_rep compare_f custom_generator final =
     (let test_cluster = make_canonical env unitcellcoord_symgroup_rep (prototype custom_generator);
          final1 = set_emplace compare_f (ClusterInvariants env test_cluster prim_structure, test_cluster)
                     final
      in if include_subclusters custom_generator
         then fold (\<lambda>value final2.
                      let test_cluster = make_canonical env unitcellcoord_symgroup_rep value
                      in set_emplace compare_f
                           (ClusterInvariants env test_cluster prim_structure, test_cluster) final2)
                (SubClusterCounter env (prototype custom_generator)) final1
         else final1)"

text \<open>The set \<^verbatim>\<open>final\<close> when the orbits are generated from it.\<close>

definition prim_periodic_final ::
    "('prim, 'site, 'inv) clusterography \<Rightarrow> 'prim \<Rightarrow> UnitCellCoordRep list
      \<Rightarrow> ('site \<Rightarrow> bool) \<Rightarrow> real list \<Rightarrow> IntegralClusterOrbitGenerator list
      \<Rightarrow> ('inv \<times> IntegralCluster) list" where
  "prim_periodic_final env prim_structure unitcellcoord_symgroup_rep site_filter max_length
       custom_generators =
     (let compare_f = CompareCluster_f env (prim_lattice_tol env prim_structure);
          null_cluster = [];
          final0 = set_emplace compare_f (ClusterInvariants env null_cluster prim_structure, null_cluster) [];
          prev_branch0 =
            set_emplace compare_f (ClusterInvariants env null_cluster prim_structure, null_cluster) [];
          (final1, prev_branch1) =
            branch_loop env prim_structure unitcellcoord_symgroup_rep site_filter max_length compare_f
              [1 ..< length max_length] (final0, prev_branch0);
          final2 = set_insert_range compare_f prev_branch1 final1
      in fold (add_custom_generator env prim_structure unitcellcoord_symgroup_rep compare_f)
           custom_generators final2)"

definition make_prim_periodic_orbits ::
    "('prim, 'site, 'inv) clusterography \<Rightarrow> 'prim \<Rightarrow> UnitCellCoordRep list
      \<Rightarrow> ('site \<Rightarrow> bool) \<Rightarrow> real list \<Rightarrow> IntegralClusterOrbitGenerator list
      \<Rightarrow> IntegralCluster set list" where
  "make_prim_periodic_orbits env prim_structure unitcellcoord_symgroup_rep site_filter max_length
       custom_generators =
     map (\<lambda>pair. make_prim_periodic_orbit env (snd pair) unitcellcoord_symgroup_rep)
       (prim_periodic_final env prim_structure unitcellcoord_symgroup_rep site_filter max_length
          custom_generators)"

text \<open>
  Two notions for the statements about \<^verbatim>\<open>final\<close>. The pair that the custom generator part
  emplaces for a cluster is the canonicalised cluster with its invariants. A set holds a
  pair after an \<^verbatim>\<open>emplace\<close> of it: the pair itself is an element, or an element is there that
  the comparison does not tell apart from it.
\<close>

definition canonical_pair ::
    "('prim, 'site, 'inv) clusterography \<Rightarrow> 'prim \<Rightarrow> UnitCellCoordRep list \<Rightarrow> IntegralCluster
      \<Rightarrow> 'inv \<times> IntegralCluster" where
  "canonical_pair env prim_structure unitcellcoord_symgroup_rep cluster =
     (let test_cluster = make_canonical env unitcellcoord_symgroup_rep cluster
      in (ClusterInvariants env test_cluster prim_structure, test_cluster))"

definition set_holds :: "('a \<Rightarrow> 'a \<Rightarrow> bool) \<Rightarrow> 'a \<Rightarrow> 'a list \<Rightarrow> bool" where
  "set_holds compare_f x S \<longleftrightarrow> (\<exists>y \<in> set S. y = x \<or> equivalent_under compare_f x y)"

section \<open>Instances for the examples\<close>

text \<open>
  The converters of a \<open>2 \<times> 1 \<times> 1\<close> supercell of a prim with two sublattices: the unit cells
  \<open>(0, 0, 0)\<close> and \<open>(1, 0, 0)\<close>, four sites.
\<close>

definition ijk_2x1x1 :: UnitCellIndexConverter where
  "ijk_2x1x1 =
     \<lparr>ijk_total_sites = 2,
      ijk_coord = (\<lambda>ix. (ix, 0, 0)),
      ijk_index = (\<lambda>u. fst u mod 2)\<rparr>"

definition bijk_2x1x1 :: UnitCellCoordIndexConverter where
  "bijk_2x1x1 =
     \<lparr>bijk_total_sites = 4,
      bijk_coord = (\<lambda>l. UnitCellCoord (l div 2) (l mod 2, 0, 0)),
      bijk_index = (\<lambda>c. sublattice c * 2 + fst (unitcell c) mod 2)\<rparr>"

text \<open>
  A one-dimensional stand-in for the lattice layer: a lattice is an integer, the point group
  is \<open>{1, -1}\<close> acting by multiplication, and the canonical equivalent is the greater of
  \<open>L\<close> and \<open>-L\<close>.
\<close>

definition xtal_1d :: "(int, int, unit) xtal" where
  "xtal_1d =
     \<lparr>canonical_equivalent = (\<lambda>L pg tol. \<bar>L\<bar>),
      sym_copy_apply = (\<lambda>g L. g * L),
      lattice_eq = (\<lambda>L M. L = M),
      lattice_tol = (\<lambda>L. ())\<rparr>"

definition supercell_1d :: "int \<Rightarrow> (int, int) Supercell" where
  "supercell_1d L =
     \<lparr>prim = \<lparr>sym_info = \<lparr>point_group = \<lparr>element = [1, - 1]\<rparr>\<rparr>\<rparr>,
      superlattice = \<lparr>prim_lattice = 1, superlattice_lattice = L\<rparr>\<rparr>"

text \<open>The operation that exchanges the sites 0 and 1 of three sites.\<close>

definition swap_01 :: SupercellSymOp where
  "swap_01 = \<lparr>permute_index = (\<lambda>s. if s = 0 then 1 else if s = 1 then 0 else s)\<rparr>"

text \<open>
  A small clusterography: invariants are cluster sizes, pairs are compared by size and then
  by cluster, the canonical element is the least transformed cluster, and the cluster filter
  for pairs and larger clusters rejects everything.
\<close>

definition clusterography_ex :: "(unit, unit, nat) clusterography" where
  "clusterography_ex =
     \<lparr>prim_lattice_tol = (\<lambda>p. 0),
      origin_neighborhood = (\<lambda>p site_filter. if site_filter () then [UnitCellCoord 0 (0, 0, 0)] else []),
      max_length_neighborhood =
        (\<lambda>d p site_filter.
           if site_filter () then [UnitCellCoord 0 (0, 0, 0), UnitCellCoord 0 (1, 0, 0)] else []),
      all_clusters_filter = (\<lambda>inv c. True),
      max_length_cluster_filter = (\<lambda>d inv c. False),
      ClusterInvariants = (\<lambda>c p. length c),
      CompareCluster_f =
        (\<lambda>tol A B. fst A < fst B \<or> (fst A = fst B \<and> cluster_less (snd A) (snd B))),
      make_canonical_element =
        (\<lambda>c reps less f.
           case reps of
             [] \<Rightarrow> c
           | op # ops \<Rightarrow> fold (\<lambda>op best. if less (f op c) best then f op c else best) ops (f op c)),
      make_orbit = (\<lambda>c reps less f. set (map (\<lambda>op. f op c) reps)),
      SubClusterCounter = subseqs\<rparr>"

definition pair_generator :: IntegralClusterOrbitGenerator where
  "pair_generator =
     \<lparr>prototype = [UnitCellCoord 0 (1, 0, 0), UnitCellCoord 0 (2, 0, 0)],
      include_subclusters = True\<rparr>"

section \<open>Properties of the cluster transformations\<close>

subsection \<open>Translations and the order of sites\<close>

lemma ucc_minus_mono: "c \<le> d \<Longrightarrow> ucc_minus c u \<le> ucc_minus d u"
  unfolding less_eq_UnitCellCoord_def ucc_key_def ucc_minus_def
  by (cases c; cases d; cases u) (auto simp: less_eq_prod_def less_prod_def)

lemma ucc_plus_mono: "c \<le> d \<Longrightarrow> ucc_plus c u \<le> ucc_plus d u"
  unfolding less_eq_UnitCellCoord_def ucc_key_def ucc_plus_def
  by (cases c; cases d; cases u) (auto simp: less_eq_prod_def less_prod_def)

lemma sorted_cluster_minus: "sorted xs \<Longrightarrow> sorted (cluster_minus xs u)"
  unfolding cluster_minus_def
  by (rule sorted_map_mono) (auto intro!: mono_onI ucc_minus_mono)

lemma sorted_cluster_plus: "sorted xs \<Longrightarrow> sorted (cluster_plus xs u)"
  unfolding cluster_plus_def
  by (rule sorted_map_mono) (auto intro!: mono_onI ucc_plus_mono)

lemma sort_cluster_plus: "sort (cluster_plus xs u) = cluster_plus (sort xs) u"
proof (rule properties_for_sort)
  show "mset (cluster_plus (sort xs) u) = mset (cluster_plus xs u)"
    by (simp add: cluster_plus_def)
  show "sorted (cluster_plus (sort xs) u)"
    by (rule sorted_cluster_plus) simp
qed

lemma sort_mset_cong: "mset xs = mset ys \<Longrightarrow> sort xs = sort (ys :: 'a :: linorder list)"
  by (rule properties_for_sort) simp_all

lemma sort_sort_id: "sort (sort xs) = sort (xs :: 'a :: linorder list)"
  by (simp add: sorted_sort_id)

lemma ucc_minus_self: "unitcell (ucc_minus c (unitcell c)) = (0, 0, 0)"
  by (cases c; cases "unitcell c") (simp add: ucc_minus_def)

lemma ucc_plus_minus_cancel:
  "ucc_minus (ucc_plus c t) (uc_plus u t) = ucc_minus c u"
  by (cases c; cases t; cases u; cases "unitcell c") (simp add: ucc_minus_def ucc_plus_def)

lemma ucc_plus_neq: "t \<noteq> (0, 0, 0) \<Longrightarrow> ucc_plus c t \<noteq> c"
  by (cases c; cases t; cases "unitcell c") (auto simp add: ucc_plus_def)

lemma unitcell_ucc_plus: "unitcell (ucc_plus c t) = uc_plus (unitcell c) t"
  by (simp add: ucc_plus_def)

lemma sublattice_ucc_plus: "sublattice (ucc_plus c u) = sublattice c"
  by (simp add: ucc_plus_def)

lemma hd_sort_Min: "xs \<noteq> [] \<Longrightarrow> hd (sort xs) = Min (set (xs :: 'a :: linorder list))"
proof -
  assume ne: "xs \<noteq> []"
  then have ne': "sort xs \<noteq> []" by (metis length_sort length_0_conv)
  then obtain y ys where s: "sort xs = y # ys" by (cases "sort xs") auto
  have srt: "sorted (y # ys)" using sorted_sort[of xs] s by simp
  have st: "set xs = set (y # ys)" by (metis s set_sort)
  have "Min (set (y # ys)) = y"
    by (rule Min_eqI) (use srt in auto)
  then show ?thesis using s st by simp
qed

lemma hd_cluster_plus: "xs \<noteq> [] \<Longrightarrow> hd (cluster_plus xs t) = ucc_plus (hd xs) t"
  by (cases xs) (simp_all add: cluster_plus_def)

lemma cluster_plus_neq:
  assumes "xs \<noteq> []" and "t \<noteq> (0, 0, 0)"
  shows "cluster_plus xs t \<noteq> xs"
proof
  assume "cluster_plus xs t = xs"
  then have "hd (cluster_plus xs t) = hd xs" by simp
  then have "ucc_plus (hd xs) t = hd xs" using assms(1) by (simp add: hd_cluster_plus)
  then show False using ucc_plus_neq[OF assms(2)] by blast
qed

lemma cluster_minus_plus_cancel:
  "cluster_minus (cluster_plus xs t) (uc_plus u t) = cluster_minus xs u"
  by (simp add: cluster_minus_def cluster_plus_def ucc_plus_minus_cancel comp_def)

lemma prim_periodic_translate:
  "prim_periodic_integral_cluster_copy_apply (\<lambda>c. c) (cluster_plus c t)
     = prim_periodic_integral_cluster_copy_apply (\<lambda>c. c) c"
proof (cases "c = []")
  case True
  then show ?thesis by (simp add: cluster_plus_def)
next
  case False
  then have ne: "sort c \<noteq> []" by (metis length_sort length_0_conv)
  have ne': "cluster_plus c t \<noteq> []" using False by (simp add: cluster_plus_def)
  have h: "cluster_plus (sort c) t ! 0 = ucc_plus (sort c ! 0) t"
    using ne by (cases "sort c") (simp_all add: cluster_plus_def)
  show ?thesis
    using False ne'
    by (simp add: prim_periodic_integral_cluster_copy_apply_def cluster_sort_def
        cluster_apply_def Let_def sort_cluster_plus h unitcell_ucc_plus
        cluster_minus_plus_cancel)
qed

subsection \<open>The prim-periodic transformation\<close>

text \<open>
  Claim C1. For every operation \<open>op\<close> and every cluster \<open>clust\<close>,
  \<^verbatim>\<open>prim_periodic_integral_cluster_copy_apply(op, clust)\<close> returns \<open>clust\<close> unchanged when it is
  empty. Otherwise it returns the cluster obtained by applying \<open>op\<close> to every element,
  sorting, and translating every element by minus the unit cell of the first element of the
  sorted sequence, which is the least transformed element. The result is sorted, and the
  unit cell of its first element is \<open>(0, 0, 0)\<close>.
\<close>

theorem prim_periodic_copy_apply_spec:
  "prim_periodic_integral_cluster_copy_apply op clust =
     (if clust = [] then clust
      else map (\<lambda>c. ucc_minus c (unitcell (hd (sort (map op clust))))) (sort (map op clust)))
   \<and> sorted (prim_periodic_integral_cluster_copy_apply op clust)
   \<and> (clust \<noteq> [] \<longrightarrow>
        hd (sort (map op clust)) = Min (op ` set clust)
        \<and> prim_periodic_integral_cluster_copy_apply op clust \<noteq> []
        \<and> unitcell (prim_periodic_integral_cluster_copy_apply op clust ! 0) = (0, 0, 0))"
proof (cases "clust = []")
  case True
  then show ?thesis by (simp add: prim_periodic_integral_cluster_copy_apply_def)
next
  case False
  let ?s = "sort (map op clust)"
  have ne: "?s \<noteq> []" using False by (metis length_sort length_0_conv map_is_Nil_conv)
  have hd0: "?s ! 0 = hd ?s" using ne by (simp add: hd_conv_nth)
  have eq: "prim_periodic_integral_cluster_copy_apply op clust =
      map (\<lambda>c. ucc_minus c (unitcell (hd ?s))) ?s"
    using False hd0
    by (simp add: prim_periodic_integral_cluster_copy_apply_def cluster_minus_def
        cluster_sort_def cluster_apply_def Let_def)
  have srt: "sorted (prim_periodic_integral_cluster_copy_apply op clust)"
    unfolding eq using sorted_cluster_minus[of ?s] by (simp add: cluster_minus_def)
  have mn: "hd ?s = Min (op ` set clust)"
    using hd_sort_Min[of "map op clust"] False by simp
  have ne2: "prim_periodic_integral_cluster_copy_apply op clust \<noteq> []"
    unfolding eq using ne by simp
  have orig: "unitcell (prim_periodic_integral_cluster_copy_apply op clust ! 0) = (0, 0, 0)"
    unfolding eq using ne by (cases "sort (map op clust)") (simp_all add: ucc_minus_self)
  show ?thesis using False eq srt mn ne2 orig by simp
qed

theorem prim_periodic_copy_apply_spec_witness:
  "[UnitCellCoord 1 (2, 3, 4), UnitCellCoord 0 (5, 6, 7)] \<noteq> []
   \<and> prim_periodic_integral_cluster_copy_apply (\<lambda>c. c)
       [UnitCellCoord 1 (2, 3, 4), UnitCellCoord 0 (5, 6, 7)]
     = [UnitCellCoord 0 (0, 0, 0), UnitCellCoord 1 (- 3, - 3, - 3)]
   \<and> sorted (prim_periodic_integral_cluster_copy_apply (\<lambda>c. c)
       [UnitCellCoord 1 (2, 3, 4), UnitCellCoord 0 (5, 6, 7)])
   \<and> unitcell (prim_periodic_integral_cluster_copy_apply (\<lambda>c. c)
       [UnitCellCoord 1 (2, 3, 4), UnitCellCoord 0 (5, 6, 7)] ! 0) = (0, 0, 0)"
proof -
  have s: "sort [UnitCellCoord 1 (2, 3, 4), UnitCellCoord 0 (5, 6, 7)]
      = [UnitCellCoord 0 (5, 6, 7), UnitCellCoord 1 (2, 3, 4)]"
    by (simp add: less_eq_UnitCellCoord_def ucc_key_def)
  show ?thesis
    using prim_periodic_copy_apply_spec
      [of "\<lambda>c. c" "[UnitCellCoord 1 (2, 3, 4), UnitCellCoord 0 (5, 6, 7)]"]
    by (simp add: s ucc_minus_def less_eq_UnitCellCoord_def ucc_key_def)
qed

text \<open>
  Claim C10. The results of \<^verbatim>\<open>prim_periodic_integral_cluster_copy_apply\<close> and of
  \<^verbatim>\<open>prim_periodic_integral_cluster_frac_translation\<close> do not depend on the order of the
  elements of the cluster: two sequences with the same elements (as multisets) give the same
  cluster and the same translation, for every operation.
\<close>

theorem prim_periodic_permutation_invariant:
  "mset clust = mset clust' \<Longrightarrow>
     prim_periodic_integral_cluster_copy_apply op clust
       = prim_periodic_integral_cluster_copy_apply op clust'
     \<and> prim_periodic_integral_cluster_frac_translation op clust
       = prim_periodic_integral_cluster_frac_translation op clust'"
proof -
  assume m: "mset clust = mset clust'"
  have e: "clust = [] \<longleftrightarrow> clust' = []" using m by (metis mset_zero_iff)
  have s1: "sort clust = sort clust'" using m by (rule sort_mset_cong)
  have "mset (map op clust) = mset (map op clust')" using m by simp
  then have s2: "sort (map op clust) = sort (map op clust')" by (rule sort_mset_cong)
  show ?thesis
    using e s1 s2
    by (simp add: prim_periodic_integral_cluster_copy_apply_def
        prim_periodic_integral_cluster_frac_translation_def
        cluster_sort_def cluster_apply_def Let_def)
qed

theorem prim_periodic_permutation_invariant_witness:
  "mset [UnitCellCoord 1 (2, 3, 4), UnitCellCoord 0 (5, 6, 7)]
     = mset [UnitCellCoord 0 (5, 6, 7), UnitCellCoord 1 (2, 3, 4)]
   \<and> prim_periodic_integral_cluster_copy_apply (\<lambda>c. ucc_plus c (1, 0, 0))
       [UnitCellCoord 1 (2, 3, 4), UnitCellCoord 0 (5, 6, 7)]
     = prim_periodic_integral_cluster_copy_apply (\<lambda>c. ucc_plus c (1, 0, 0))
       [UnitCellCoord 0 (5, 6, 7), UnitCellCoord 1 (2, 3, 4)]
   \<and> prim_periodic_integral_cluster_frac_translation (\<lambda>c. ucc_plus c (1, 0, 0))
       [UnitCellCoord 1 (2, 3, 4), UnitCellCoord 0 (5, 6, 7)]
     = prim_periodic_integral_cluster_frac_translation (\<lambda>c. ucc_plus c (1, 0, 0))
       [UnitCellCoord 0 (5, 6, 7), UnitCellCoord 1 (2, 3, 4)]"
proof -
  have m: "mset [UnitCellCoord 1 (2, 3, 4), UnitCellCoord 0 (5, 6, 7)]
     = mset [UnitCellCoord 0 (5, 6, 7), UnitCellCoord 1 (2, 3, 4)]"
    by simp
  show ?thesis
    using m prim_periodic_permutation_invariant [OF m, of "\<lambda>c. ucc_plus c (1, 0, 0)"]
    by simp
qed

subsection \<open>The local transformation\<close>

text \<open>
  Claim C2. \<^verbatim>\<open>local_integral_cluster_copy_apply(op, c)\<close> applies \<open>op\<close> to every element and
  sorts; its elements are exactly the transformed elements, none is translated. So a
  non-empty cluster and its translate by a non-zero lattice translation stay unequal after
  the local transformation with the identity operation, while the prim-periodic
  transformation with the identity operation makes them equal.
\<close>

theorem local_copy_apply_spec:
  "local_integral_cluster_copy_apply op c = sort (map op c)
   \<and> mset (local_integral_cluster_copy_apply op c) = image_mset op (mset c)
   \<and> (c \<noteq> [] \<and> t \<noteq> (0, 0, 0) \<longrightarrow>
        \<not> cluster_eq (local_integral_cluster_copy_apply (\<lambda>c. c) c)
             (local_integral_cluster_copy_apply (\<lambda>c. c) (cluster_plus c t))
        \<and> cluster_eq (prim_periodic_integral_cluster_copy_apply (\<lambda>c. c) c)
             (prim_periodic_integral_cluster_copy_apply (\<lambda>c. c) (cluster_plus c t)))"
proof -
  have eq: "local_integral_cluster_copy_apply op c = sort (map op c)" for op c
    by (simp add: local_integral_cluster_copy_apply_def cluster_sort_def cluster_apply_def)
  have ms: "mset (local_integral_cluster_copy_apply op c) = image_mset op (mset c)"
    by (simp add: eq)
  have nc: "\<not> cluster_eq (local_integral_cluster_copy_apply (\<lambda>c. c) c)
             (local_integral_cluster_copy_apply (\<lambda>c. c) (cluster_plus c t))"
    if "c \<noteq> []" and "t \<noteq> (0, 0, 0)"
  proof -
    from that(1) have ne: "sort c \<noteq> []" by (metis length_sort length_0_conv)
    have "cluster_plus (sort c) t \<noteq> sort c"
      using ne that(2) by (rule cluster_plus_neq)
    then show ?thesis
      by (simp add: eq cluster_eq_def cluster_sort_def sort_sort_id sort_cluster_plus)
  qed
  have pp: "cluster_eq (prim_periodic_integral_cluster_copy_apply (\<lambda>c. c) c)
             (prim_periodic_integral_cluster_copy_apply (\<lambda>c. c) (cluster_plus c t))"
    by (simp add: prim_periodic_translate cluster_eq_def)
  show ?thesis using eq ms nc pp by blast
qed

theorem local_copy_apply_spec_witness:
  "[UnitCellCoord 0 (0, 0, 0), UnitCellCoord 0 (1, 0, 0)] \<noteq> []
   \<and> (1, 0, 0) \<noteq> (0 :: int, 0 :: int, 0 :: int)
   \<and> cluster_plus [UnitCellCoord 0 (0, 0, 0), UnitCellCoord 0 (1, 0, 0)] (1, 0, 0)
       = [UnitCellCoord 0 (1, 0, 0), UnitCellCoord 0 (2, 0, 0)]
   \<and> \<not> cluster_eq
         (local_integral_cluster_copy_apply (\<lambda>c. c)
            [UnitCellCoord 0 (0, 0, 0), UnitCellCoord 0 (1, 0, 0)])
         (local_integral_cluster_copy_apply (\<lambda>c. c)
            [UnitCellCoord 0 (1, 0, 0), UnitCellCoord 0 (2, 0, 0)])
   \<and> cluster_eq
         (prim_periodic_integral_cluster_copy_apply (\<lambda>c. c)
            [UnitCellCoord 0 (0, 0, 0), UnitCellCoord 0 (1, 0, 0)])
         (prim_periodic_integral_cluster_copy_apply (\<lambda>c. c)
            [UnitCellCoord 0 (1, 0, 0), UnitCellCoord 0 (2, 0, 0)])"
proof -
  have p: "cluster_plus [UnitCellCoord 0 (0, 0, 0), UnitCellCoord 0 (1, 0, 0)] (1, 0, 0)
       = [UnitCellCoord 0 (1, 0, 0), UnitCellCoord 0 (2, 0, 0)]"
    by (simp add: cluster_plus_def ucc_plus_def)
  have a: "[UnitCellCoord 0 (0, 0, 0), UnitCellCoord 0 (1, 0, 0)] \<noteq> []"
    by simp
  have b: "(1, 0, 0) \<noteq> (0 :: int, 0 :: int, 0 :: int)"
    by simp
  from a b local_copy_apply_spec
      [of "\<lambda>c. c" "[UnitCellCoord 0 (0, 0, 0), UnitCellCoord 0 (1, 0, 0)]" "(1, 0, 0)"]
  have "\<not> cluster_eq
         (local_integral_cluster_copy_apply (\<lambda>c. c)
            [UnitCellCoord 0 (0, 0, 0), UnitCellCoord 0 (1, 0, 0)])
         (local_integral_cluster_copy_apply (\<lambda>c. c)
            [UnitCellCoord 0 (1, 0, 0), UnitCellCoord 0 (2, 0, 0)])
     \<and> cluster_eq
         (prim_periodic_integral_cluster_copy_apply (\<lambda>c. c)
            [UnitCellCoord 0 (0, 0, 0), UnitCellCoord 0 (1, 0, 0)])
         (prim_periodic_integral_cluster_copy_apply (\<lambda>c. c)
            [UnitCellCoord 0 (1, 0, 0), UnitCellCoord 0 (2, 0, 0)])"
    unfolding p by blast
  with a b p show ?thesis by blast
qed

section \<open>Properties of the translation permutations\<close>

subsection \<open>The inner loop\<close>

lemma assign_sites_fold:
  "\<forall>old \<in> set olds. 0 \<le> translated_site_ix bijk t old
        \<and> translated_site_ix bijk t old < int (length perm) \<Longrightarrow>
   assign_sites bijk t olds perm =
     Inr (fold (\<lambda>old p. p[nat (translated_site_ix bijk t old) := old]) olds perm)"
proof (induction olds arbitrary: perm)
  case Nil
  then show ?case by simp
next
  case (Cons old olds)
  have "\<forall>x \<in> set olds. 0 \<le> translated_site_ix bijk t x
      \<and> translated_site_ix bijk t x
          < int (length (perm[nat (translated_site_ix bijk t old) := old]))"
    using Cons.prems by simp
  from Cons.IH [OF this] Cons.prems show ?case
    by (simp add: translated_site_ix_def Let_def)
qed

lemma length_fold_update:
  "length (fold (\<lambda>old p. p[nat (f old) := g old]) olds perm) = length perm"
  by (induction olds arbitrary: perm) simp_all

lemma fold_update_nth:
  assumes "inj_on f (set olds)"
    and "\<forall>old \<in> set olds. 0 \<le> f old \<and> f old < int (length perm)"
    and "old \<in> set olds"
  shows "fold (\<lambda>old p. p[nat (f old) := old]) olds perm ! nat (f old) = (old :: int)"
  using assms
proof (induction olds arbitrary: old rule: rev_induct)
  case Nil
  then show ?case by simp
next
  case (snoc x xs)
  let ?r = "fold (\<lambda>old p. p[nat (f old) := old]) xs perm"
  have len: "length ?r = length perm" by (rule length_fold_update)
  have fx: "0 \<le> f x" "f x < int (length perm)" using snoc.prems(2) by simp_all
  show ?case
  proof (cases "old = x")
    case True
    then show ?thesis using fx len by simp
  next
    case False
    then have mem: "old \<in> set xs" using snoc.prems(3) by simp
    have "f old \<noteq> f x"
      using snoc.prems(1) False snoc.prems(3) by (auto simp: inj_on_def)
    moreover have "0 \<le> f old" using snoc.prems(2) mem by simp
    ultimately have ne: "nat (f old) \<noteq> nat (f x)" using fx by simp
    have "inj_on f (set xs)" using snoc.prems(1) by (simp add: inj_on_def)
    moreover have "\<forall>old \<in> set xs. 0 \<le> f old \<and> f old < int (length perm)"
      using snoc.prems(2) by simp
    ultimately have "?r ! nat (f old) = old" using mem by (rule snoc.IH)
    then show ?thesis using ne by simp
  qed
qed

subsection \<open>Consequences of the converter contract\<close>

lemma uc_plus_assoc: "uc_plus (uc_plus u v) w = uc_plus u (uc_plus v w)"
  by (cases u; cases v; cases w) simp

lemma uc_plus_commute: "uc_plus u v = uc_plus v u"
  by (cases u; cases v) simp

lemma uc_plus_zero: "uc_plus u (0, 0, 0) = u"
  by (cases u) simp

lemma uc_plus_minus: "uc_plus (uc_plus u t) (uc_minus (0, 0, 0) t) = u"
  by (cases u; cases t) simp

lemma ucc_plus_plus: "ucc_plus (ucc_plus c u) v = ucc_plus c (uc_plus u v)"
  by (simp add: ucc_plus_def uc_plus_assoc)

lemma ucc_plus_zero: "ucc_plus c (0, 0, 0) = c"
  by (simp add: ucc_plus_def uc_plus_zero)

lemma contract_total_nonneg:
  assumes "index_converter_contract ijk bijk B"
  shows "0 \<le> bijk_total_sites bijk"
proof -
  have "0 \<le> B" and "bijk_total_sites bijk = ijk_total_sites ijk * B"
    and "0 \<le> ijk_index ijk (0, 0, 0) \<and> ijk_index ijk (0, 0, 0) < ijk_total_sites ijk"
    using assms unfolding index_converter_contract_def by blast+
  then show ?thesis by simp
qed

lemma contract_ijk_roundtrip:
  "index_converter_contract ijk bijk B \<Longrightarrow> 0 \<le> ix \<Longrightarrow> ix < ijk_total_sites ijk \<Longrightarrow>
     ijk_index ijk (ijk_coord ijk ix) = ix"
  unfolding index_converter_contract_def by blast

lemma contract_ijk_range:
  "index_converter_contract ijk bijk B \<Longrightarrow>
     0 \<le> ijk_index ijk u \<and> ijk_index ijk u < ijk_total_sites ijk"
  unfolding index_converter_contract_def by blast

lemma contract_bijk_roundtrip:
  "index_converter_contract ijk bijk B \<Longrightarrow> 0 \<le> l \<Longrightarrow> l < bijk_total_sites bijk \<Longrightarrow>
     bijk_index bijk (bijk_coord bijk l) = l"
  unfolding index_converter_contract_def by blast

lemma contract_bijk_sublattice:
  "index_converter_contract ijk bijk B \<Longrightarrow> 0 \<le> l \<Longrightarrow> l < bijk_total_sites bijk \<Longrightarrow>
     0 \<le> sublattice (bijk_coord bijk l) \<and> sublattice (bijk_coord bijk l) < B"
  unfolding index_converter_contract_def by blast

lemma contract_bijk_range:
  "index_converter_contract ijk bijk B \<Longrightarrow> 0 \<le> sublattice c \<Longrightarrow> sublattice c < B \<Longrightarrow>
     0 \<le> bijk_index bijk c \<and> bijk_index bijk c < bijk_total_sites bijk"
  unfolding index_converter_contract_def by blast

lemma contract_bijk_eq:
  "index_converter_contract ijk bijk B \<Longrightarrow>
     0 \<le> sublattice c \<Longrightarrow> sublattice c < B \<Longrightarrow> 0 \<le> sublattice d \<Longrightarrow> sublattice d < B \<Longrightarrow>
     bijk_index bijk c = bijk_index bijk d \<longleftrightarrow>
       sublattice c = sublattice d \<and> ijk_index ijk (unitcell c) = ijk_index ijk (unitcell d)"
  unfolding index_converter_contract_def by blast

lemma contract_ijk_cong:
  "index_converter_contract ijk bijk B \<Longrightarrow> ijk_index ijk u = ijk_index ijk v \<Longrightarrow>
     ijk_index ijk (uc_plus u t) = ijk_index ijk (uc_plus v t)"
  unfolding index_converter_contract_def by blast

text \<open>Congruent sites stay congruent under a translation, and conversely.\<close>

lemma contract_bijk_cong:
  assumes c: "index_converter_contract ijk bijk B"
    and r: "0 \<le> sublattice c" "sublattice c < B" "0 \<le> sublattice d" "sublattice d < B"
  shows "bijk_index bijk (ucc_plus c t) = bijk_index bijk (ucc_plus d t)
           \<longleftrightarrow> bijk_index bijk c = bijk_index bijk d"
proof -
  have "ijk_index ijk (uc_plus (unitcell c) t) = ijk_index ijk (uc_plus (unitcell d) t)
      \<longleftrightarrow> ijk_index ijk (unitcell c) = ijk_index ijk (unitcell d)" (is "?l \<longleftrightarrow> ?r")
  proof
    assume ?l
    from contract_ijk_cong [OF c this, of "uc_minus (0, 0, 0) t"]
    show ?r by (simp add: uc_plus_minus)
  next
    assume ?r
    then show ?l by (rule contract_ijk_cong [OF c])
  qed
  then show ?thesis
    using contract_bijk_eq [OF c r]
      contract_bijk_eq [OF c, of "ucc_plus c t" "ucc_plus d t"] r
    by (simp add: sublattice_ucc_plus unitcell_ucc_plus)
qed

text \<open>A translation by a unit cell congruent to another moves a site to the same index.\<close>

lemma contract_bijk_cong_translation:
  assumes c: "index_converter_contract ijk bijk B"
    and r: "0 \<le> sublattice d" "sublattice d < B"
    and e: "ijk_index ijk u = ijk_index ijk v"
  shows "bijk_index bijk (ucc_plus d u) = bijk_index bijk (ucc_plus d v)"
proof -
  from contract_ijk_cong [OF c e, of "unitcell d"]
  have "ijk_index ijk (uc_plus (unitcell d) u) = ijk_index ijk (uc_plus (unitcell d) v)"
    by (simp add: uc_plus_commute)
  then show ?thesis
    using contract_bijk_eq [OF c, of "ucc_plus d u" "ucc_plus d v"] r
    by (simp add: sublattice_ucc_plus unitcell_ucc_plus)
qed

lemma translated_site_ix_range:
  assumes c: "index_converter_contract ijk bijk B"
    and r: "0 \<le> old" "old < bijk_total_sites bijk"
  shows "0 \<le> translated_site_ix bijk t old
    \<and> translated_site_ix bijk t old < bijk_total_sites bijk"
  unfolding translated_site_ix_def
  using contract_bijk_sublattice [OF c r]
  by (intro contract_bijk_range [OF c]) (simp_all add: sublattice_ucc_plus)

lemma translated_site_ix_inj:
  assumes c: "index_converter_contract ijk bijk B"
  shows "inj_on (translated_site_ix bijk t) {0 ..< bijk_total_sites bijk}"
proof (rule inj_onI)
  fix x y
  assume x: "x \<in> {0 ..< bijk_total_sites bijk}" and y: "y \<in> {0 ..< bijk_total_sites bijk}"
    and e: "translated_site_ix bijk t x = translated_site_ix bijk t y"
  have sx: "0 \<le> sublattice (bijk_coord bijk x)" "sublattice (bijk_coord bijk x) < B"
    using contract_bijk_sublattice [OF c, of x] x by simp_all
  have sy: "0 \<le> sublattice (bijk_coord bijk y)" "sublattice (bijk_coord bijk y) < B"
    using contract_bijk_sublattice [OF c, of y] y by simp_all
  have "bijk_index bijk (bijk_coord bijk x) = bijk_index bijk (bijk_coord bijk y)"
    using contract_bijk_cong [OF c sx sy, of t] e by (simp add: translated_site_ix_def)
  then show "x = y"
    using contract_bijk_roundtrip [OF c, of x] contract_bijk_roundtrip [OF c, of y] x y
    by simp
qed

lemma translated_site_ix_surj:
  assumes c: "index_converter_contract ijk bijk B"
  shows "translated_site_ix bijk t ` {0 ..< bijk_total_sites bijk} = {0 ..< bijk_total_sites bijk}"
proof (rule endo_inj_surj)
  show "finite {0 ..< bijk_total_sites bijk}" by simp
  show "translated_site_ix bijk t ` {0 ..< bijk_total_sites bijk} \<subseteq> {0 ..< bijk_total_sites bijk}"
    using translated_site_ix_range [OF c, where t = t] by (simp add: image_subset_iff)
  show "inj_on (translated_site_ix bijk t) {0 ..< bijk_total_sites bijk}"
    by (rule translated_site_ix_inj [OF c])
qed

lemma upto_nat_set: "set [0 .. n - 1] = {0 ..< (n :: int)}"
  by auto

subsection \<open>The loops under the contract\<close>

text \<open>What one pass of the outer loop produces.\<close>

lemma single_translation_permutation_spec:
  assumes c: "index_converter_contract ijk bijk B"
  shows "\<exists>p. single_translation_permutation bijk t = Inr p
    \<and> length p = nat (bijk_total_sites bijk)
    \<and> (\<forall>old. 0 \<le> old \<and> old < bijk_total_sites bijk \<longrightarrow>
          p ! nat (translated_site_ix bijk t old) = old)
    \<and> set p = {0 ..< bijk_total_sites bijk}
    \<and> distinct p"
proof -
  let ?n = "bijk_total_sites bijk"
  let ?f = "translated_site_ix bijk t"
  let ?init = "replicate (nat ?n) (- 1 :: int)"
  let ?p = "fold (\<lambda>old p. p[nat (?f old) := old]) [0 .. ?n - 1] ?init"
  have n0: "0 \<le> ?n"
    by (rule contract_total_nonneg [OF c])
  have rng: "\<forall>old \<in> set [0 .. ?n - 1]. 0 \<le> ?f old \<and> ?f old < int (length ?init)"
    using translated_site_ix_range [OF c, where t = t] n0 by simp
  have run: "assign_sites bijk t [0 .. ?n - 1] ?init = Inr ?p"
    using rng by (rule assign_sites_fold)
  have len: "length ?p = nat ?n"
    by (simp add: length_fold_update)
  have inj: "inj_on ?f (set [0 .. ?n - 1])"
    unfolding upto_nat_set by (rule translated_site_ix_inj [OF c])
  have nth: "?p ! nat (?f old) = old" if "0 \<le> old" "old < ?n" for old
    using inj rng by (rule fold_update_nth) (use that in simp)
  have surj: "?f ` {0 ..< ?n} = {0 ..< ?n}"
    by (rule translated_site_ix_surj [OF c])
  have at: "?p ! j \<in> {0 ..< ?n}" if "j < nat ?n" for j
  proof -
    have "int j \<in> ?f ` {0 ..< ?n}" unfolding surj using that by simp
    then obtain old where old: "old \<in> {0 ..< ?n}" "int j = ?f old" by blast
    then have "?p ! nat (?f old) = old" using nth by simp
    moreover have "nat (?f old) = j" using old(2) by simp
    ultimately show ?thesis using old(1) by simp
  qed
  have sub: "set ?p \<subseteq> {0 ..< ?n}"
  proof
    fix x assume "x \<in> set ?p"
    then obtain j where j: "j < length ?p" and x: "x = ?p ! j"
      unfolding in_set_conv_nth by blast
    from j have "j < nat ?n" unfolding len .
    then have "?p ! j \<in> {0 ..< ?n}" by (rule at)
    then show "x \<in> {0 ..< ?n}" unfolding x .
  qed
  have sup: "{0 ..< ?n} \<subseteq> set ?p"
  proof
    fix old assume old: "old \<in> {0 ..< ?n}"
    then have e: "?p ! nat (?f old) = old" using nth by simp
    have "nat (?f old) < length ?p"
      using translated_site_ix_range [OF c, of old t] old unfolding len by simp
    then have "?p ! nat (?f old) \<in> set ?p" by (rule nth_mem)
    then show "old \<in> set ?p" unfolding e .
  qed
  have st: "set ?p = {0 ..< ?n}" using sub sup by blast
  have "card (set ?p) = length ?p" using st len by simp
  then have dist: "distinct ?p" by (rule card_distinct)
  have no: "- 1 \<notin> set ?p" unfolding st by simp
  have res: "single_translation_permutation bijk t = Inr ?p"
    unfolding single_translation_permutation_def run using n0 no by simp
  show ?thesis
  proof (intro exI conjI allI impI)
    show "single_translation_permutation bijk t = Inr ?p" by (rule res)
    show "length ?p = nat ?n" by (rule len)
    show "?p ! nat (?f old) = old" if "0 \<le> old \<and> old < ?n" for old
      using that nth by blast
    show "set ?p = {0 ..< ?n}" by (rule st)
    show "distinct ?p" by (rule dist)
  qed
qed

lemma translation_loop_spec:
  assumes "\<forall>ix \<in> set ixs. \<exists>p. single_translation_permutation bijk (ijk_coord ijk ix) = Inr p"
  shows "\<exists>ps. translation_loop ijk bijk ixs acc = Inr (acc @ ps)
    \<and> list_all2 (\<lambda>ix p. single_translation_permutation bijk (ijk_coord ijk ix) = Inr p) ixs ps"
  using assms
proof (induction ixs arbitrary: acc)
  case Nil
  then show ?case by simp
next
  case (Cons ix ixs)
  from Cons.prems obtain p where p: "single_translation_permutation bijk (ijk_coord ijk ix) = Inr p"
    by auto
  have "\<forall>ix \<in> set ixs. \<exists>p. single_translation_permutation bijk (ijk_coord ijk ix) = Inr p"
    using Cons.prems by simp
  from Cons.IH [OF this, of "acc @ [p]"] obtain ps where
    ps: "translation_loop ijk bijk ixs (acc @ [p]) = Inr ((acc @ [p]) @ ps)"
      "list_all2 (\<lambda>ix p. single_translation_permutation bijk (ijk_coord ijk ix) = Inr p) ixs ps"
    by blast
  have "translation_loop ijk bijk (ix # ixs) acc = Inr (acc @ (p # ps))"
    using p ps(1) by simp
  moreover have "list_all2 (\<lambda>ix p. single_translation_permutation bijk (ijk_coord ijk ix) = Inr p)
      (ix # ixs) (p # ps)"
    using p ps(2) by simp
  ultimately show ?case by blast
qed

text \<open>The result of the whole function, translation by translation.\<close>

lemma make_translation_permutations_spec:
  assumes c: "index_converter_contract ijk bijk B"
  shows "\<exists>perms. make_translation_permutations ijk bijk = Inr perms
    \<and> length perms = nat (ijk_total_sites ijk)
    \<and> (\<forall>ix. 0 \<le> ix \<and> ix < ijk_total_sites ijk \<longrightarrow>
          single_translation_permutation bijk (ijk_coord ijk ix) = Inr (perms ! nat ix))"
proof -
  let ?N = "ijk_total_sites ijk"
  have "\<forall>ix \<in> set [0 .. ?N - 1]. \<exists>p. single_translation_permutation bijk (ijk_coord ijk ix) = Inr p"
    using single_translation_permutation_spec [OF c] by blast
  from translation_loop_spec [OF this, of "[]"] obtain perms where
    run: "make_translation_permutations ijk bijk = Inr perms"
    and all: "list_all2 (\<lambda>ix p. single_translation_permutation bijk (ijk_coord ijk ix) = Inr p)
        [0 .. ?N - 1] perms"
    by (auto simp: make_translation_permutations_def)
  have len: "length perms = nat ?N"
    using list_all2_lengthD [OF all] by simp
  have nth: "single_translation_permutation bijk (ijk_coord ijk ix) = Inr (perms ! nat ix)"
    if "0 \<le> ix" "ix < ?N" for ix
  proof -
    have "nat ix < length [0 .. ?N - 1]" using that by simp
    from list_all2_nthD [OF all this] that show ?thesis by simp
  qed
  show ?thesis using run len nth by blast
qed

subsection \<open>The converters of the example\<close>

lemma converters_2x1x1_contract: "index_converter_contract ijk_2x1x1 bijk_2x1x1 2"
proof -
  have e0: "0 \<le> x \<Longrightarrow> x < 2 \<Longrightarrow> 0 \<le> y \<Longrightarrow> y < 2 \<Longrightarrow>
      (b * 2 + x = b' * 2 + y) \<longleftrightarrow> (b = b' \<and> x = y)" for b b' x y :: int
    by arith
  have e: "(b * 2 + i mod 2 = b' * 2 + i' mod 2) \<longleftrightarrow> (b = b' \<and> i mod 2 = i' mod 2)"
    for b b' i i' :: int
    by (rule e0) simp_all
  have r: "l div 2 * 2 + l mod 2 = l" for l :: int
    by presburger
  have d: "0 \<le> l \<Longrightarrow> l < 4 \<Longrightarrow> 0 \<le> l div 2 \<and> l div 2 < 2" for l :: int
    by presburger
  have g: "0 \<le> b \<Longrightarrow> b < 2 \<Longrightarrow> 0 \<le> b * 2 + i mod 2 \<and> b * 2 + i mod 2 < 4" for b i :: int
    by presburger
  have m: "i mod 2 = i' mod 2 \<Longrightarrow> (i + t) mod 2 = (i' + t) mod 2" for i i' t :: int
    by presburger
  have c1: "bijk_total_sites bijk_2x1x1 = ijk_total_sites ijk_2x1x1 * 2"
    by (simp add: ijk_2x1x1_def bijk_2x1x1_def)
  have c2: "ijk_index ijk_2x1x1 (ijk_coord ijk_2x1x1 ix) = ix"
    if "0 \<le> ix \<and> ix < ijk_total_sites ijk_2x1x1" for ix
    using that by (simp add: ijk_2x1x1_def)
  have c3: "0 \<le> ijk_index ijk_2x1x1 u \<and> ijk_index ijk_2x1x1 u < ijk_total_sites ijk_2x1x1" for u
    by (simp add: ijk_2x1x1_def)
  have c4: "bijk_index bijk_2x1x1 (bijk_coord bijk_2x1x1 l) = l
      \<and> 0 \<le> sublattice (bijk_coord bijk_2x1x1 l) \<and> sublattice (bijk_coord bijk_2x1x1 l) < 2"
    if "0 \<le> l \<and> l < bijk_total_sites bijk_2x1x1" for l
    using that d [of l] by (simp add: bijk_2x1x1_def r)
  have c5: "0 \<le> bijk_index bijk_2x1x1 c \<and> bijk_index bijk_2x1x1 c < bijk_total_sites bijk_2x1x1"
    if "0 \<le> sublattice c \<and> sublattice c < 2" for c
    using that g [of "sublattice c" "fst (unitcell c)"] by (simp add: bijk_2x1x1_def)
  have c6: "bijk_index bijk_2x1x1 c = bijk_index bijk_2x1x1 d \<longleftrightarrow>
      sublattice c = sublattice d
      \<and> ijk_index ijk_2x1x1 (unitcell c) = ijk_index ijk_2x1x1 (unitcell d)" for c d
    by (simp add: bijk_2x1x1_def ijk_2x1x1_def e)
  have c7: "ijk_index ijk_2x1x1 (uc_plus u t) = ijk_index ijk_2x1x1 (uc_plus v t)"
    if "ijk_index ijk_2x1x1 u = ijk_index ijk_2x1x1 v" for u v t
    using that by (cases u; cases v; cases t) (auto simp: ijk_2x1x1_def intro: m)
  show ?thesis
    unfolding index_converter_contract_def
  proof (intro conjI)
    show "(0 :: int) \<le> 2" by simp
    show "bijk_total_sites bijk_2x1x1 = ijk_total_sites ijk_2x1x1 * 2" by (rule c1)
    show "\<forall>ix. 0 \<le> ix \<and> ix < ijk_total_sites ijk_2x1x1 \<longrightarrow>
        ijk_index ijk_2x1x1 (ijk_coord ijk_2x1x1 ix) = ix"
      using c2 by blast
    show "\<forall>u. 0 \<le> ijk_index ijk_2x1x1 u \<and> ijk_index ijk_2x1x1 u < ijk_total_sites ijk_2x1x1"
      using c3 by blast
    show "\<forall>l. 0 \<le> l \<and> l < bijk_total_sites bijk_2x1x1 \<longrightarrow>
        bijk_index bijk_2x1x1 (bijk_coord bijk_2x1x1 l) = l
        \<and> 0 \<le> sublattice (bijk_coord bijk_2x1x1 l) \<and> sublattice (bijk_coord bijk_2x1x1 l) < 2"
      using c4 by blast
    show "\<forall>c. 0 \<le> sublattice c \<and> sublattice c < 2 \<longrightarrow>
        0 \<le> bijk_index bijk_2x1x1 c \<and> bijk_index bijk_2x1x1 c < bijk_total_sites bijk_2x1x1"
      using c5 by blast
    show "\<forall>c d. 0 \<le> sublattice c \<and> sublattice c < 2 \<and> 0 \<le> sublattice d \<and> sublattice d < 2 \<longrightarrow>
        (bijk_index bijk_2x1x1 c = bijk_index bijk_2x1x1 d \<longleftrightarrow>
           sublattice c = sublattice d
           \<and> ijk_index ijk_2x1x1 (unitcell c) = ijk_index ijk_2x1x1 (unitcell d))"
      using c6 by blast
    show "\<forall>u v t. ijk_index ijk_2x1x1 u = ijk_index ijk_2x1x1 v \<longrightarrow>
        ijk_index ijk_2x1x1 (uc_plus u t) = ijk_index ijk_2x1x1 (uc_plus v t)"
      using c7 by blast
  qed
qed

lemma upto_0_3: "[0 .. 3] = [0, 1, 2, 3 :: int]"
  by (simp add: upto.simps)

lemma upto_0_1: "[0 .. 1] = [0, 1 :: int]"
  by (simp add: upto.simps)

lemma single_translation_permutation_2x1x1_0: "single_translation_permutation bijk_2x1x1 (0, 0, 0) = Inr [0, 1, 2, 3]"
  by (simp add: single_translation_permutation_def bijk_2x1x1_def upto_0_3 ucc_plus_def
      numeral_eq_Suc Let_def)

lemma single_translation_permutation_2x1x1_1: "single_translation_permutation bijk_2x1x1 (1, 0, 0) = Inr [1, 0, 3, 2]"
  by (simp add: single_translation_permutation_def bijk_2x1x1_def upto_0_3 ucc_plus_def
      numeral_eq_Suc Let_def)

lemma make_translation_permutations_2x1x1: "make_translation_permutations ijk_2x1x1 bijk_2x1x1 = Inr [[0, 1, 2, 3], [1, 0, 3, 2]]"
proof -
  have "ijk_total_sites ijk_2x1x1 - 1 = 1" "ijk_coord ijk_2x1x1 0 = (0, 0, 0)"
    "ijk_coord ijk_2x1x1 1 = (1, 0, 0)"
    by (simp_all add: ijk_2x1x1_def)
  then show ?thesis
    by (simp add: make_translation_permutations_def upto_0_1 single_translation_permutation_2x1x1_0
        single_translation_permutation_2x1x1_1)
qed

subsection \<open>Totality, identity and closure\<close>

text \<open>
  Claim C4. For the converters of a supercell with \<open>N\<close> unit cells and \<open>B\<close> sublattices that
  keep their contract, \<^verbatim>\<open>make_translation_permutations\<close> returns (no write leaves the
  vector and the assertion does not fire) exactly \<open>N\<close> permutations, each of length
  \<open>N \<cdot> B\<close>, without the placeholder \<open>-1\<close>, and each a bijection of \<open>{0, \<dots>, N \<cdot> B - 1}\<close>: every
  index occurs exactly once.
\<close>

theorem translation_permutations_total:
  assumes c: "index_converter_contract ijk bijk B"
  shows "\<exists>perms. make_translation_permutations ijk bijk = Inr perms
    \<and> int (length perms) = ijk_total_sites ijk
    \<and> (\<forall>p \<in> set perms.
          int (length p) = ijk_total_sites ijk * B
          \<and> - 1 \<notin> set p
          \<and> distinct p
          \<and> set p = {0 ..< ijk_total_sites ijk * B}
          \<and> bij_betw (\<lambda>n. p ! nat n) {0 ..< ijk_total_sites ijk * B}
               {0 ..< ijk_total_sites ijk * B})"
proof -
  let ?N = "ijk_total_sites ijk"
  let ?n = "bijk_total_sites bijk"
  have tot: "?n = ?N * B" using c unfolding index_converter_contract_def by blast
  have n0: "0 \<le> ?n" by (rule contract_total_nonneg [OF c])
  have N0: "0 \<le> ?N" using contract_ijk_range [OF c, of "(0, 0, 0)"] by simp
  from make_translation_permutations_spec [OF c] obtain perms where
    run: "make_translation_permutations ijk bijk = Inr perms"
    and len: "length perms = nat ?N"
    and nth: "\<And>ix. 0 \<le> ix \<Longrightarrow> ix < ?N \<Longrightarrow>
        single_translation_permutation bijk (ijk_coord ijk ix) = Inr (perms ! nat ix)"
    by blast
  have each: "int (length p) = ?n \<and> - 1 \<notin> set p \<and> distinct p \<and> set p = {0 ..< ?n}
      \<and> bij_betw (\<lambda>n. p ! nat n) {0 ..< ?n} {0 ..< ?n}"
    if "p \<in> set perms" for p
  proof -
    from that obtain k where k: "k < length perms" "p = perms ! k"
      by (auto simp: in_set_conv_nth)
    have "single_translation_permutation bijk (ijk_coord ijk (int k)) = Inr p"
      using nth [of "int k"] k len by simp
    with single_translation_permutation_spec [OF c, of "ijk_coord ijk (int k)"]
    have lp: "length p = nat ?n" and st: "set p = {0 ..< ?n}" and d: "distinct p"
      by auto
    have "inj_on (\<lambda>n. p ! nat n) {0 ..< ?n}"
      using d lp by (auto simp: inj_on_def nth_eq_iff_index_eq)
    moreover have "(\<lambda>n. p ! nat n) ` {0 ..< ?n} = set p"
    proof -
      have "(\<lambda>n. p ! nat n) ` {0 ..< ?n} = (\<lambda>i. p ! i) ` {0 ..< length p}"
      proof (intro set_eqI iffI)
        fix x assume "x \<in> (\<lambda>n. p ! nat n) ` {0 ..< ?n}"
        then obtain m where "0 \<le> m" "m < ?n" "x = p ! nat m" by auto
        then show "x \<in> (\<lambda>i. p ! i) ` {0 ..< length p}" using lp by auto
      next
        fix x assume "x \<in> (\<lambda>i. p ! i) ` {0 ..< length p}"
        then obtain i where "i < length p" "x = p ! i" by auto
        then have "int i \<in> {0 ..< ?n}" "x = p ! nat (int i)" using lp by auto
        then show "x \<in> (\<lambda>n. p ! nat n) ` {0 ..< ?n}" by blast
      qed
      then show ?thesis by (simp add: set_conv_nth image_def Bex_def conj_commute)
    qed
    ultimately have "bij_betw (\<lambda>n. p ! nat n) {0 ..< ?n} {0 ..< ?n}"
      using st by (simp add: bij_betw_def)
    then show ?thesis using lp st d n0 by simp
  qed
  show ?thesis using run len N0 each tot by auto
qed

theorem translation_permutations_total_witness:
  "index_converter_contract ijk_2x1x1 bijk_2x1x1 2
   \<and> make_translation_permutations ijk_2x1x1 bijk_2x1x1 = Inr [[0, 1, 2, 3], [1, 0, 3, 2]]
   \<and> int (length [[0, 1, 2, 3], [1, 0, 3, 2 :: int]]) = ijk_total_sites ijk_2x1x1
   \<and> [1, 0, 3, 2] \<in> set [[0, 1, 2, 3], [1, 0, 3, 2 :: int]]
   \<and> int (length [1, 0, 3, 2 :: int]) = ijk_total_sites ijk_2x1x1 * 2
   \<and> - 1 \<notin> set [1, 0, 3, 2 :: int]
   \<and> distinct [1, 0, 3, 2 :: int]
   \<and> set [1, 0, 3, 2 :: int] = {0 ..< ijk_total_sites ijk_2x1x1 * 2}"
proof -
  note v = make_translation_permutations_2x1x1
  from translation_permutations_total [OF converters_2x1x1_contract] v
  have a: "int (length [[0, 1, 2, 3], [1, 0, 3, 2 :: int]]) = ijk_total_sites ijk_2x1x1"
    and b: "\<forall>p \<in> set [[0, 1, 2, 3], [1, 0, 3, 2 :: int]].
          int (length p) = ijk_total_sites ijk_2x1x1 * 2
          \<and> - 1 \<notin> set p
          \<and> distinct p
          \<and> set p = {0 ..< ijk_total_sites ijk_2x1x1 * 2}"
    by auto
  have m: "[1, 0, 3, 2] \<in> set [[0, 1, 2, 3], [1, 0, 3, 2 :: int]]" by simp
  from b m have "int (length [1, 0, 3, 2 :: int]) = ijk_total_sites ijk_2x1x1 * 2
      \<and> - 1 \<notin> set [1, 0, 3, 2 :: int]
      \<and> distinct [1, 0, 3, 2 :: int]
      \<and> set [1, 0, 3, 2 :: int] = {0 ..< ijk_total_sites ijk_2x1x1 * 2}"
    by blast
  then show ?thesis using converters_2x1x1_contract v a m by blast
qed

text \<open>
  Claim C5. Under the contract of the converters, the permutation that
  \<^verbatim>\<open>make_translation_permutations\<close> produces for the zero translation is the identity
  permutation of \<open>{0, \<dots>, N \<cdot> B - 1}\<close>: the one at the linear index of the unit cell
  \<open>(0, 0, 0)\<close>, and any one whose translation is \<open>(0, 0, 0)\<close>.
\<close>

theorem identity_translation_permutation:
  assumes c: "index_converter_contract ijk bijk B"
  shows "\<exists>perms. make_translation_permutations ijk bijk = Inr perms
    \<and> nat (ijk_index ijk (0, 0, 0)) < length perms
    \<and> perms ! nat (ijk_index ijk (0, 0, 0)) = [0 .. ijk_total_sites ijk * B - 1]
    \<and> (\<forall>ix. 0 \<le> ix \<and> ix < ijk_total_sites ijk \<and> ijk_coord ijk ix = (0, 0, 0) \<longrightarrow>
          perms ! nat ix = [0 .. ijk_total_sites ijk * B - 1])"
proof -
  let ?N = "ijk_total_sites ijk"
  let ?n = "bijk_total_sites bijk"
  have tot: "?n = ?N * B" using c unfolding index_converter_contract_def by blast
  from make_translation_permutations_spec [OF c] obtain perms where
    run: "make_translation_permutations ijk bijk = Inr perms"
    and len: "length perms = nat ?N"
    and nth: "\<And>ix. 0 \<le> ix \<Longrightarrow> ix < ?N \<Longrightarrow>
        single_translation_permutation bijk (ijk_coord ijk ix) = Inr (perms ! nat ix)"
    by blast
  have ident: "perms ! nat ix = [0 .. ?n - 1]"
    if ix: "0 \<le> ix" "ix < ?N" and z: "ijk_index ijk (ijk_coord ijk ix) = ijk_index ijk (0, 0, 0)"
    for ix
  proof -
    let ?p = "perms ! nat ix"
    let ?t = "ijk_coord ijk ix"
    from single_translation_permutation_spec [OF c, of ?t] nth [OF ix]
    have lp: "length ?p = nat ?n"
      and at: "\<And>old. 0 \<le> old \<Longrightarrow> old < ?n \<Longrightarrow> ?p ! nat (translated_site_ix bijk ?t old) = old"
      by auto
    have stay: "translated_site_ix bijk ?t old = old" if old: "0 \<le> old" "old < ?n" for old
    proof -
      have "bijk_index bijk (ucc_plus (bijk_coord bijk old) ?t)
          = bijk_index bijk (ucc_plus (bijk_coord bijk old) (0, 0, 0))"
        using contract_bijk_sublattice [OF c old] z
        by (intro contract_bijk_cong_translation [OF c]) simp_all
      then show ?thesis
        using contract_bijk_roundtrip [OF c old]
        by (simp add: translated_site_ix_def ucc_plus_zero)
    qed
    show ?thesis
    proof (rule nth_equalityI)
      show "length ?p = length [0 .. ?n - 1]" using lp by simp
    next
      fix i assume "i < length ?p"
      then have i: "0 \<le> int i" "int i < ?n" using lp by simp_all
      have "?p ! nat (translated_site_ix bijk ?t (int i)) = int i" using i by (rule at)
      then have "?p ! i = int i" using stay [OF i] by simp
      then show "?p ! i = [0 .. ?n - 1] ! i" using i by (simp add: nth_upto)
    qed
  qed
  let ?z = "ijk_index ijk (0, 0, 0)"
  have zr: "0 \<le> ?z" "?z < ?N" using contract_ijk_range [OF c, of "(0, 0, 0)"] by simp_all
  have "ijk_index ijk (ijk_coord ijk ?z) = ?z" using zr by (rule contract_ijk_roundtrip [OF c])
  then have a: "perms ! nat ?z = [0 .. ?n - 1]" using zr by (intro ident) simp_all
  have b: "perms ! nat ix = [0 .. ?n - 1]"
    if "0 \<le> ix" "ix < ?N" "ijk_coord ijk ix = (0, 0, 0)" for ix
    using that by (intro ident) simp_all
  have "nat ?z < length perms" using zr len by simp
  then show ?thesis using run a b unfolding tot by blast
qed

theorem identity_translation_permutation_witness:
  "index_converter_contract ijk_2x1x1 bijk_2x1x1 2
   \<and> (0 :: int) \<le> 0 \<and> 0 < ijk_total_sites ijk_2x1x1
   \<and> ijk_coord ijk_2x1x1 0 = (0, 0, 0)
   \<and> ijk_index ijk_2x1x1 (0, 0, 0) = 0
   \<and> make_translation_permutations ijk_2x1x1 bijk_2x1x1 = Inr [[0, 1, 2, 3], [1, 0, 3, 2]]
   \<and> [[0, 1, 2, 3], [1, 0, 3, 2]] ! nat (ijk_index ijk_2x1x1 (0, 0, 0))
        = [0 .. ijk_total_sites ijk_2x1x1 * 2 - 1]
   \<and> [[0, 1, 2, 3], [1, 0, 3, 2]] ! nat 0 = [0 .. ijk_total_sites ijk_2x1x1 * 2 - 1]
   \<and> [0 .. ijk_total_sites ijk_2x1x1 * 2 - 1] = [0, 1, 2, 3]"
proof -
  have z: "(0 :: int) \<le> 0" "0 < ijk_total_sites ijk_2x1x1"
    "ijk_coord ijk_2x1x1 0 = (0, 0, 0)" "ijk_index ijk_2x1x1 (0, 0, 0) = 0"
    by (simp_all add: ijk_2x1x1_def)
  have u: "[0 .. ijk_total_sites ijk_2x1x1 * 2 - 1] = [0, 1, 2, 3]"
    by (simp add: ijk_2x1x1_def upto_0_3)
  note v = make_translation_permutations_2x1x1
  from identity_translation_permutation [OF converters_2x1x1_contract] v
  have a: "[[0, 1, 2, 3], [1, 0, 3, 2]] ! nat (ijk_index ijk_2x1x1 (0, 0, 0))
        = [0 .. ijk_total_sites ijk_2x1x1 * 2 - 1]"
    and b: "\<forall>ix. 0 \<le> ix \<and> ix < ijk_total_sites ijk_2x1x1 \<and> ijk_coord ijk_2x1x1 ix = (0, 0, 0)
          \<longrightarrow> [[0, 1, 2, 3], [1, 0, 3, 2]] ! nat ix = [0 .. ijk_total_sites ijk_2x1x1 * 2 - 1]"
    by auto
  from b z have "[[0, 1, 2, 3], [1, 0, 3, 2]] ! nat 0 = [0 .. ijk_total_sites ijk_2x1x1 * 2 - 1]"
    by blast
  then show ?thesis using converters_2x1x1_contract z v a u by blast
qed

lemma translation_permutations_compose:
  assumes c: "index_converter_contract ijk bijk B"
    and i1: "0 \<le> i1" "i1 < ijk_total_sites ijk"
    and i2: "0 \<le> i2" "i2 < ijk_total_sites ijk"
  shows "\<exists>perms. make_translation_permutations ijk bijk = Inr perms
    \<and> compose_permutations (perms ! nat i1) (perms ! nat i2)
        = perms ! nat (ijk_index ijk (uc_plus (ijk_coord ijk i1) (ijk_coord ijk i2)))"
proof -
  let ?N = "ijk_total_sites ijk"
  let ?n = "bijk_total_sites bijk"
  let ?t1 = "ijk_coord ijk i1"
  let ?t2 = "ijk_coord ijk i2"
  let ?i3 = "ijk_index ijk (uc_plus ?t1 ?t2)"
  let ?t3 = "ijk_coord ijk ?i3"
  from make_translation_permutations_spec [OF c] obtain perms where
    run: "make_translation_permutations ijk bijk = Inr perms"
    and nth: "\<And>ix. 0 \<le> ix \<Longrightarrow> ix < ?N \<Longrightarrow>
        single_translation_permutation bijk (ijk_coord ijk ix) = Inr (perms ! nat ix)"
    by blast
  let ?P = "perms ! nat i1" and ?Q = "perms ! nat i2" and ?R = "perms ! nat ?i3"
  have i3: "0 \<le> ?i3" "?i3 < ?N" using contract_ijk_range [OF c, of "uc_plus ?t1 ?t2"] by simp_all
  have t3: "ijk_index ijk ?t3 = ijk_index ijk (uc_plus ?t1 ?t2)"
    using i3 by (rule contract_ijk_roundtrip [OF c])
  from single_translation_permutation_spec [OF c, of ?t1] nth [OF i1]
  have lP: "length ?P = nat ?n"
    and atP: "\<And>old. 0 \<le> old \<Longrightarrow> old < ?n \<Longrightarrow> ?P ! nat (translated_site_ix bijk ?t1 old) = old"
    by auto
  from single_translation_permutation_spec [OF c, of ?t2] nth [OF i2]
  have lQ: "length ?Q = nat ?n"
    and atQ: "\<And>old. 0 \<le> old \<Longrightarrow> old < ?n \<Longrightarrow> ?Q ! nat (translated_site_ix bijk ?t2 old) = old"
    by auto
  from single_translation_permutation_spec [OF c, of ?t3] nth [OF i3]
  have lR: "length ?R = nat ?n"
    and atR: "\<And>old. 0 \<le> old \<Longrightarrow> old < ?n \<Longrightarrow> ?R ! nat (translated_site_ix bijk ?t3 old) = old"
    by auto
  have pt: "?Q ! nat (?P ! j) = ?R ! j" if j: "j < nat ?n" for j
  proof -
    have "int j \<in> translated_site_ix bijk ?t3 ` {0 ..< ?n}"
      unfolding translated_site_ix_surj [OF c] using j by simp
    then obtain old where old: "0 \<le> old" "old < ?n"
      and j3: "int j = translated_site_ix bijk ?t3 old"
      by auto
    let ?c = "bijk_coord bijk old"
    let ?m = "translated_site_ix bijk ?t2 old"
    have sc: "0 \<le> sublattice ?c" "sublattice ?c < B"
      using contract_bijk_sublattice [OF c old] by simp_all
    have m: "0 \<le> ?m" "?m < ?n" using translated_site_ix_range [OF c old, of ?t2] by simp_all
    have sm: "0 \<le> sublattice (bijk_coord bijk ?m)" "sublattice (bijk_coord bijk ?m) < B"
      using contract_bijk_sublattice [OF c m] by simp_all
    have "bijk_index bijk (bijk_coord bijk ?m) = bijk_index bijk (ucc_plus ?c ?t2)"
      using contract_bijk_roundtrip [OF c m] by (simp add: translated_site_ix_def)
    then have "bijk_index bijk (ucc_plus (bijk_coord bijk ?m) ?t1)
        = bijk_index bijk (ucc_plus (ucc_plus ?c ?t2) ?t1)"
      using contract_bijk_cong [OF c sm, of "ucc_plus ?c ?t2" ?t1] sc
      by (simp add: sublattice_ucc_plus)
    also have "\<dots> = bijk_index bijk (ucc_plus ?c (uc_plus ?t1 ?t2))"
      by (simp add: ucc_plus_plus uc_plus_commute)
    also have "\<dots> = bijk_index bijk (ucc_plus ?c ?t3)"
      using sc t3 by (intro contract_bijk_cong_translation [OF c]) simp_all
    finally have j1: "translated_site_ix bijk ?t1 ?m = int j"
      using j3 by (simp add: translated_site_ix_def)
    have "?P ! nat (translated_site_ix bijk ?t1 ?m) = ?m" using m by (rule atP)
    then have P: "?P ! j = ?m" using j1 by simp
    have Q: "?Q ! nat ?m = old" using old by (rule atQ)
    have "?R ! nat (translated_site_ix bijk ?t3 old) = old" using old by (rule atR)
    then have R: "?R ! j = old" using j3 [symmetric] by simp
    show ?thesis using P Q R by simp
  qed
  have "compose_permutations ?P ?Q = ?R"
    unfolding compose_permutations_def
    by (rule nth_equalityI) (use lP lR pt in simp_all)
  then show ?thesis using run by blast
qed

text \<open>
  Claim C3. Under the contract of the converters, for two translations \<open>t1\<close> and \<open>t2\<close> of
  the supercell (the unit cells at the linear indices \<open>i1\<close> and \<open>i2\<close>), the composition
  of the permutations of \<open>t1\<close> and \<open>t2\<close>, with \<open>(P \<circ> Q)[n] = Q[P[n]]\<close>, is the permutation of
  the translation \<open>t1 + t2\<close> reduced modulo the supercell, in either order of composition.
\<close>

theorem translation_permutations_closure:
  assumes c: "index_converter_contract ijk bijk B"
    and i1: "0 \<le> i1" "i1 < ijk_total_sites ijk"
    and i2: "0 \<le> i2" "i2 < ijk_total_sites ijk"
  shows "\<exists>perms. make_translation_permutations ijk bijk = Inr perms
    \<and> compose_permutations (perms ! nat i1) (perms ! nat i2)
        = perms ! nat (ijk_index ijk (uc_plus (ijk_coord ijk i1) (ijk_coord ijk i2)))
    \<and> compose_permutations (perms ! nat i2) (perms ! nat i1)
        = perms ! nat (ijk_index ijk (uc_plus (ijk_coord ijk i1) (ijk_coord ijk i2)))"
proof -
  from translation_permutations_compose [OF c i1 i2] obtain perms where
    run: "make_translation_permutations ijk bijk = Inr perms"
    and a: "compose_permutations (perms ! nat i1) (perms ! nat i2)
        = perms ! nat (ijk_index ijk (uc_plus (ijk_coord ijk i1) (ijk_coord ijk i2)))"
    by blast
  from translation_permutations_compose [OF c i2 i1] run
  have "compose_permutations (perms ! nat i2) (perms ! nat i1)
        = perms ! nat (ijk_index ijk (uc_plus (ijk_coord ijk i2) (ijk_coord ijk i1)))"
    by auto
  then have b: "compose_permutations (perms ! nat i2) (perms ! nat i1)
        = perms ! nat (ijk_index ijk (uc_plus (ijk_coord ijk i1) (ijk_coord ijk i2)))"
    by (simp add: uc_plus_commute [of "ijk_coord ijk i2"])
  show ?thesis using run a b by blast
qed

theorem translation_permutations_closure_witness:
  "index_converter_contract ijk_2x1x1 bijk_2x1x1 2
   \<and> (0 :: int) \<le> 1 \<and> 1 < ijk_total_sites ijk_2x1x1
   \<and> ijk_index ijk_2x1x1 (uc_plus (ijk_coord ijk_2x1x1 1) (ijk_coord ijk_2x1x1 1)) = 0
   \<and> (\<exists>perms. make_translation_permutations ijk_2x1x1 bijk_2x1x1 = Inr perms
        \<and> compose_permutations (perms ! 1) (perms ! 1) = perms ! 0)
   \<and> compose_permutations [1, 0, 3, 2] [1, 0, 3, 2] = [0, 1, 2, 3]"
proof -
  have r: "(0 :: int) \<le> 1" "1 < ijk_total_sites ijk_2x1x1"
    by (simp_all add: ijk_2x1x1_def)
  have s: "ijk_index ijk_2x1x1 (uc_plus (ijk_coord ijk_2x1x1 1) (ijk_coord ijk_2x1x1 1)) = 0"
    by (simp add: ijk_2x1x1_def)
  have v: "compose_permutations [1, 0, 3, 2] [1, 0, 3, 2] = [0, 1, 2, 3]"
    by (simp add: compose_permutations_def upt_rec)
  from translation_permutations_closure [OF converters_2x1x1_contract r r]
  have "\<exists>perms. make_translation_permutations ijk_2x1x1 bijk_2x1x1 = Inr perms
        \<and> compose_permutations (perms ! 1) (perms ! 1) = perms ! 0"
    unfolding s by auto
  then show ?thesis using converters_2x1x1_contract r s v by blast
qed

section \<open>Properties of the canonical forms of supercells\<close>

lemma site_indices_are_invariant_closed:
  "site_indices_are_invariant op S \<longleftrightarrow> (\<forall>s \<in> S. permute_index op s \<in> S)"
  by (auto simp: site_indices_are_invariant_def none_of_def set_count_def)

text \<open>
  Claim C6. For an operation whose \<^verbatim>\<open>permute_index\<close> is a bijection of the site indices
  \<open>0, \<dots>, n - 1\<close> and a set \<open>S\<close> of site indices, \<^verbatim>\<open>site_indices_are_invariant(op, S)\<close> is true
  if and only if \<open>permute_index(s)\<close> is in \<open>S\<close> for every \<open>s\<close> in \<open>S\<close>; and that is the case if
  and only if no site leaves or enters the set: a site index is in \<open>S\<close> exactly when its
  image is.
\<close>

theorem site_indices_are_invariant_iff:
  assumes bij: "bij_betw (permute_index op) {0 ..< n} {0 ..< n}"
    and sub: "S \<subseteq> {0 ..< n}"
  shows "(site_indices_are_invariant op S \<longleftrightarrow> (\<forall>s \<in> S. permute_index op s \<in> S))
    \<and> (site_indices_are_invariant op S \<longleftrightarrow>
         (\<forall>s \<in> {0 ..< n}. s \<in> S \<longleftrightarrow> permute_index op s \<in> S))"
proof -
  let ?p = "permute_index op"
  have inj: "inj_on ?p {0 ..< n}" using bij by (rule bij_betw_imp_inj_on)
  have fin: "finite S" using sub by (rule finite_subset) simp
  have enter: "s \<in> S" if closed: "\<forall>s \<in> S. ?p s \<in> S" and s: "s \<in> {0 ..< n}" and ps: "?p s \<in> S" for s
  proof -
    have "?p ` S \<subseteq> S" using closed by blast
    moreover have "inj_on ?p S" using inj sub by (rule inj_on_subset)
    ultimately have "?p ` S = S" using fin by (simp add: endo_inj_surj)
    then obtain s' where s': "s' \<in> S" "?p s' = ?p s" using ps by (metis imageE)
    then have "s' = s" using inj s sub by (meson inj_onD subsetD)
    then show ?thesis using s' by simp
  qed
  have "(\<forall>s \<in> S. ?p s \<in> S) \<longleftrightarrow> (\<forall>s \<in> {0 ..< n}. s \<in> S \<longleftrightarrow> ?p s \<in> S)"
    using enter sub by blast
  then show ?thesis by (simp add: site_indices_are_invariant_closed)
qed

theorem site_indices_are_invariant_iff_witness:
  "bij_betw (permute_index swap_01) {0 ..< 3} {0 ..< 3}
   \<and> {0, 1} \<subseteq> {0 ..< (3 :: int)}
   \<and> site_indices_are_invariant swap_01 {0, 1}
   \<and> permute_index swap_01 0 \<in> {0, 1 :: int}
   \<and> permute_index swap_01 1 \<in> {0, 1 :: int}
   \<and> 2 \<in> {0 ..< 3 :: int}
   \<and> (2 \<in> {0, 1 :: int}) = (permute_index swap_01 2 \<in> {0, 1 :: int})
   \<and> \<not> site_indices_are_invariant swap_01 {0, 2}"
proof -
  have r: "{0 ..< 3 :: int} = {0, 1, 2}" by auto
  have b: "bij_betw (permute_index swap_01) {0 ..< 3} {0 ..< 3}"
    unfolding r by (auto simp: bij_betw_def swap_01_def inj_on_def)
  have s1: "{0, 1} \<subseteq> {0 ..< (3 :: int)}" by simp
  have s2: "{0, 2} \<subseteq> {0 ..< (3 :: int)}" by simp
  have p: "permute_index swap_01 0 = 1" "permute_index swap_01 1 = 0" "permute_index swap_01 2 = 2"
    by (simp_all add: swap_01_def)
  from site_indices_are_invariant_iff [OF b s1]
  have i1: "site_indices_are_invariant swap_01 {0, 1}" by (simp add: p)
  have m: "2 \<in> {0 ..< 3 :: int}" by simp
  from site_indices_are_invariant_iff [OF b s1] i1
  have "\<forall>s \<in> {0 ..< 3}. (s \<in> {0, 1 :: int}) = (permute_index swap_01 s \<in> {0, 1 :: int})"
    by blast
  with m have e: "(2 \<in> {0, 1 :: int}) = (permute_index swap_01 2 \<in> {0, 1 :: int})"
    by blast
  from site_indices_are_invariant_iff [OF b s2]
  have i2: "\<not> site_indices_are_invariant swap_01 {0, 2}" by (simp add: p)
  show ?thesis using b s1 i1 i2 p m e by simp
qed

text \<open>
  Claim C7. \<^verbatim>\<open>make_canonical_form\<close> is idempotent: under the contract of
  \<^verbatim>\<open>xtal::canonical::equivalent\<close> for the point group of the prim, the canonical form of the
  canonical form of a supercell has the super-lattice of the canonical form, and both share
  the prim of the supercell.
\<close>

theorem make_canonical_form_idempotent:
  assumes "canonical_equivalent_contract X ge (element (point_group (sym_info (prim sc))))"
  shows "superlattice_lattice (superlattice (make_canonical_form X (make_canonical_form X sc)))
           = superlattice_lattice (superlattice (make_canonical_form X sc))
    \<and> prim (make_canonical_form X (make_canonical_form X sc)) = prim sc
    \<and> prim (make_canonical_form X sc) = prim sc
    \<and> make_canonical_form X (make_canonical_form X sc) = make_canonical_form X sc"
proof -
  let ?pg = "element (point_group (sym_info (prim sc)))"
  let ?L = "superlattice_lattice (superlattice sc)"
  let ?t = "lattice_tol X ?L"
  let ?C = "canonical_equivalent X ?L ?pg ?t"
  have mem: "?C \<in> lattice_orbit X ?pg ?L"
    and uniq: "\<And>L tol M'. M' \<in> lattice_orbit X ?pg L \<Longrightarrow>
        (\<forall>M \<in> lattice_orbit X ?pg L. ge tol M' M) \<Longrightarrow> M' = canonical_equivalent X L ?pg tol"
    and mx: "\<And>L tol M. M \<in> lattice_orbit X ?pg L \<Longrightarrow> ge tol (canonical_equivalent X L ?pg tol) M"
    and orb: "\<And>L M. M \<in> lattice_orbit X ?pg L \<Longrightarrow> lattice_orbit X ?pg M = lattice_orbit X ?pg L"
    and tol: "\<And>g L. lattice_tol X (sym_copy_apply X g L) = lattice_tol X L"
    using assms unfolding canonical_equivalent_contract_def by blast+
  have tC: "lattice_tol X ?C = ?t"
    using mem tol unfolding lattice_orbit_def by auto
  have oC: "lattice_orbit X ?pg ?C = lattice_orbit X ?pg ?L"
    using mem by (rule orb)
  have "?C \<in> lattice_orbit X ?pg ?C" using mem oC by simp
  moreover have "\<forall>M \<in> lattice_orbit X ?pg ?C. ge ?t ?C M" using mx oC by simp
  ultimately have "?C = canonical_equivalent X ?C ?pg ?t" by (rule uniq)
  then have idem: "canonical_equivalent X ?C ?pg (lattice_tol X ?C) = ?C"
    using tC by simp
  show ?thesis
    using idem by (simp add: make_canonical_form_def Let_def)
qed

lemma xtal_1d_contract: "canonical_equivalent_contract xtal_1d (\<lambda>tol L M. M \<le> L) [1, - 1]"
  unfolding canonical_equivalent_contract_def lattice_orbit_def xtal_1d_def
  by auto

theorem make_canonical_form_idempotent_witness:
  "canonical_equivalent_contract xtal_1d (\<lambda>tol L M. M \<le> L)
      (element (point_group (sym_info (prim (supercell_1d (- 3))))))
   \<and> superlattice_lattice (superlattice (make_canonical_form xtal_1d (supercell_1d (- 3)))) = 3
   \<and> superlattice_lattice (superlattice
        (make_canonical_form xtal_1d (make_canonical_form xtal_1d (supercell_1d (- 3))))) = 3
   \<and> prim (make_canonical_form xtal_1d (make_canonical_form xtal_1d (supercell_1d (- 3))))
        = prim (supercell_1d (- 3))"
proof -
  have pg: "element (point_group (sym_info (prim (supercell_1d (- 3))))) = [1, - 1]"
    by (simp add: supercell_1d_def)
  have c: "canonical_equivalent_contract xtal_1d (\<lambda>tol L M. M \<le> L)
      (element (point_group (sym_info (prim (supercell_1d (- 3))))))"
    unfolding pg by (rule xtal_1d_contract)
  have v: "superlattice_lattice (superlattice (make_canonical_form xtal_1d (supercell_1d (- 3)))) = 3"
    by (simp add: make_canonical_form_def supercell_1d_def xtal_1d_def)
  show ?thesis
    using c v make_canonical_form_idempotent [OF c] by simp
qed

lemma from_canonical_loop_find:
  "from_canonical_loop X lhs canonical pg =
     (case find (\<lambda>op. lattice_eq X lhs (sym_copy_apply X op canonical)) pg of
        Some op \<Rightarrow> Inr op
      | None \<Rightarrow> Inl (RuntimeError from_canonical_not_found))"
  by (induction pg) simp_all

lemma not_found_in_message: "sublist ''Not found'' from_canonical_not_found"
proof -
  have "from_canonical_not_found =
      ''Error in CASM::config::from_canonical(Supercell const &): '' @ ''Not found''"
    by (simp add: from_canonical_not_found_def)
  then have "suffix ''Not found'' from_canonical_not_found"
    unfolding suffix_def by blast
  then show ?thesis by (rule suffix_imp_sublist)
qed

text \<open>
  Claim C8. \<^verbatim>\<open>from_canonical(sc)\<close> returns the first operation \<open>g\<close> of the point group of the
  prim, in the order of the group, for which the super-lattice of \<open>sc\<close> equals
  \<open>copy_apply(g, canonical(sc))\<close>, and it returns no other operation. If no operation of the
  point group does, it throws an error whose message contains \<open>Not found\<close>, and returns
  nothing.
\<close>

theorem from_canonical_first_or_throws:
  fixes X :: "('lat, 'op, 'tol) xtal" and sc :: "('lat, 'op) Supercell"
  defines "pg \<equiv> element (point_group (sym_info (prim sc)))"
  defines "lhs \<equiv> superlattice_lattice (superlattice sc)"
  defines "canonical \<equiv> superlattice_lattice (superlattice (make_canonical_form X sc))"
  shows "(\<forall>i < length pg.
            lattice_eq X lhs (sym_copy_apply X (pg ! i) canonical)
            \<and> (\<forall>j < i. \<not> lattice_eq X lhs (sym_copy_apply X (pg ! j) canonical))
            \<longrightarrow> from_canonical X sc = Inr (pg ! i))
    \<and> ((\<forall>g \<in> set pg. \<not> lattice_eq X lhs (sym_copy_apply X g canonical))
         \<longrightarrow> (\<exists>msg. from_canonical X sc = Inl (RuntimeError msg) \<and> sublist ''Not found'' msg))
    \<and> (\<forall>g. from_canonical X sc = Inr g \<longrightarrow>
          (\<exists>i < length pg. g = pg ! i
             \<and> lattice_eq X lhs (sym_copy_apply X g canonical)
             \<and> (\<forall>j < i. \<not> lattice_eq X lhs (sym_copy_apply X (pg ! j) canonical))))"
proof -
  let ?P = "\<lambda>op. lattice_eq X lhs (sym_copy_apply X op canonical)"
  have fc: "from_canonical X sc =
      (case find ?P pg of Some op \<Rightarrow> Inr op | None \<Rightarrow> Inl (RuntimeError from_canonical_not_found))"
    unfolding pg_def lhs_def canonical_def
    by (simp add: from_canonical_def make_canonical_form_def Let_def from_canonical_loop_find)
  have a: "from_canonical X sc = Inr (pg ! i)"
    if "i < length pg" "?P (pg ! i)" "\<forall>j < i. \<not> ?P (pg ! j)" for i
  proof -
    have "find ?P pg = Some (pg ! i)"
      unfolding find_Some_iff using that by blast
    then show ?thesis by (simp add: fc)
  qed
  have b: "\<exists>msg. from_canonical X sc = Inl (RuntimeError msg) \<and> sublist ''Not found'' msg"
    if "\<forall>g \<in> set pg. \<not> ?P g"
  proof -
    have "find ?P pg = None" unfolding find_None_iff using that by blast
    then show ?thesis using not_found_in_message by (simp add: fc)
  qed
  have c: "\<exists>i < length pg. g = pg ! i \<and> ?P g \<and> (\<forall>j < i. \<not> ?P (pg ! j))"
    if "from_canonical X sc = Inr g" for g
  proof -
    have "find ?P pg = Some g"
      using that unfolding fc by (cases "find ?P pg") simp_all
    then show ?thesis unfolding find_Some_iff by blast
  qed
  show ?thesis using a b c by blast
qed

theorem from_canonical_first_or_throws_witness:
  "\<not> lattice_eq xtal_1d (- 3) (sym_copy_apply xtal_1d 1 3)
   \<and> lattice_eq xtal_1d (- 3) (sym_copy_apply xtal_1d (- 1) 3)
   \<and> from_canonical xtal_1d (supercell_1d (- 3)) = Inr (- 1)
   \<and> (\<exists>i < length [1, - 1 :: int]. - 1 = [1, - 1 :: int] ! i
        \<and> lattice_eq xtal_1d (- 3) (sym_copy_apply xtal_1d (- 1) 3))
   \<and> (\<exists>msg. from_canonical (xtal_1d\<lparr>lattice_eq := \<lambda>L M. False\<rparr>) (supercell_1d (- 3))
          = Inl (RuntimeError msg)
        \<and> sublist ''Not found'' msg)"
proof -
  let ?Y = "xtal_1d\<lparr>lattice_eq := \<lambda>L M. False\<rparr>"
  have pg: "element (point_group (sym_info (prim (supercell_1d (- 3))))) = [1, - 1]"
    and lhs: "superlattice_lattice (superlattice (supercell_1d (- 3))) = - 3"
    by (simp_all add: supercell_1d_def)
  have can: "superlattice_lattice (superlattice (make_canonical_form xtal_1d (supercell_1d (- 3)))) = 3"
    by (simp add: make_canonical_form_def supercell_1d_def xtal_1d_def)
  have a: "\<not> lattice_eq xtal_1d (- 3) (sym_copy_apply xtal_1d 1 3)"
    and b: "lattice_eq xtal_1d (- 3) (sym_copy_apply xtal_1d (- 1) 3)"
    by (simp_all add: xtal_1d_def)
  note th = from_canonical_first_or_throws [where X = xtal_1d and sc = "supercell_1d (- 3)", unfolded pg lhs can]
  from th have "(1 :: nat) < length [1, - 1 :: int]
      \<and> lattice_eq xtal_1d (- 3) (sym_copy_apply xtal_1d ([1, - 1] ! 1) 3)
      \<and> (\<forall>j < 1. \<not> lattice_eq xtal_1d (- 3) (sym_copy_apply xtal_1d ([1, - 1] ! j) 3))
      \<longrightarrow> from_canonical xtal_1d (supercell_1d (- 3)) = Inr ([1, - 1] ! 1)"
    by blast
  then have r: "from_canonical xtal_1d (supercell_1d (- 3)) = Inr (- 1)"
    using a b by simp
  from th r have "\<exists>i < length [1, - 1 :: int]. - 1 = [1, - 1 :: int] ! i
        \<and> lattice_eq xtal_1d (- 3) (sym_copy_apply xtal_1d (- 1) 3)
        \<and> (\<forall>j < i. \<not> lattice_eq xtal_1d (- 3) (sym_copy_apply xtal_1d ([1, - 1] ! j) 3))"
    by blast
  then have q: "\<exists>i < length [1, - 1 :: int]. - 1 = [1, - 1 :: int] ! i
        \<and> lattice_eq xtal_1d (- 3) (sym_copy_apply xtal_1d (- 1) 3)"
    by blast
  from from_canonical_first_or_throws [where X = "?Y" and sc = "supercell_1d (- 3)"]
  have "(\<forall>g \<in> set (element (point_group (sym_info (prim (supercell_1d (- 3)))))).
          \<not> lattice_eq ?Y (superlattice_lattice (superlattice (supercell_1d (- 3))))
              (sym_copy_apply ?Y g
                 (superlattice_lattice (superlattice (make_canonical_form ?Y (supercell_1d (- 3)))))))
      \<longrightarrow> (\<exists>msg. from_canonical ?Y (supercell_1d (- 3)) = Inl (RuntimeError msg)
             \<and> sublist ''Not found'' msg)"
    by blast
  then have t: "\<exists>msg. from_canonical ?Y (supercell_1d (- 3)) = Inl (RuntimeError msg)
             \<and> sublist ''Not found'' msg"
    by simp
  show ?thesis using a b r q t by blast
qed

section \<open>Properties of the orbit enumeration\<close>

lemma set_emplace_keeps: "set S \<subseteq> set (set_emplace compare_f x S)"
  by (induction S) auto

lemma set_emplace_holds: "set_holds compare_f x (set_emplace compare_f x S)"
  unfolding set_holds_def
  by (induction S) (auto simp: equivalent_under_def)

lemma set_holds_mono: "set_holds compare_f x S \<Longrightarrow> set S \<subseteq> set S' \<Longrightarrow> set_holds compare_f x S'"
  unfolding set_holds_def by blast

lemma fold_emplace_keeps:
  "set S \<subseteq> set (fold (\<lambda>v S. set_emplace compare_f (F v) S) vs S)"
proof (induction vs arbitrary: S)
  case Nil
  then show ?case by simp
next
  case (Cons v vs)
  have "set S \<subseteq> set (set_emplace compare_f (F v) S)" by (rule set_emplace_keeps)
  also have "\<dots> \<subseteq> set (fold (\<lambda>v S. set_emplace compare_f (F v) S) vs (set_emplace compare_f (F v) S))"
    by (rule Cons.IH)
  finally show ?case by simp
qed

lemma fold_emplace_holds:
  "v \<in> set vs \<Longrightarrow> set_holds compare_f (F v) (fold (\<lambda>v S. set_emplace compare_f (F v) S) vs S)"
proof (induction vs arbitrary: S)
  case Nil
  then show ?case by simp
next
  case (Cons a vs)
  show ?case
  proof (cases "v = a")
    case True
    have "set_holds compare_f (F a) (set_emplace compare_f (F a) S)" by (rule set_emplace_holds)
    then have "set_holds compare_f (F a)
        (fold (\<lambda>v S. set_emplace compare_f (F v) S) vs (set_emplace compare_f (F a) S))"
      by (rule set_holds_mono) (rule fold_emplace_keeps)
    then show ?thesis using True by simp
  next
    case False
    then have "v \<in> set vs" using Cons.prems by simp
    then show ?thesis using Cons.IH by simp
  qed
qed

lemma add_custom_generator_unfold:
  "add_custom_generator env ps reps compare_f g S =
     (if include_subclusters g
      then fold (\<lambda>v S. set_emplace compare_f (canonical_pair env ps reps v) S)
             (SubClusterCounter env (prototype g))
             (set_emplace compare_f (canonical_pair env ps reps (prototype g)) S)
      else set_emplace compare_f (canonical_pair env ps reps (prototype g)) S)"
  by (simp add: add_custom_generator_def canonical_pair_def Let_def)

lemma add_custom_generator_keeps:
  "set S \<subseteq> set (add_custom_generator env ps reps compare_f g S)"
proof -
  let ?S1 = "set_emplace compare_f (canonical_pair env ps reps (prototype g)) S"
  have a: "set S \<subseteq> set ?S1" by (rule set_emplace_keeps)
  have b: "set ?S1 \<subseteq> set (fold (\<lambda>v S. set_emplace compare_f (canonical_pair env ps reps v) S)
      (SubClusterCounter env (prototype g)) ?S1)"
    by (rule fold_emplace_keeps)
  show ?thesis
    unfolding add_custom_generator_unfold using a b by auto
qed

lemma add_custom_generator_prototype:
  "set_holds compare_f (canonical_pair env ps reps (prototype g))
     (add_custom_generator env ps reps compare_f g S)"
proof -
  let ?S1 = "set_emplace compare_f (canonical_pair env ps reps (prototype g)) S"
  have a: "set_holds compare_f (canonical_pair env ps reps (prototype g)) ?S1"
    by (rule set_emplace_holds)
  then have "set_holds compare_f (canonical_pair env ps reps (prototype g))
      (fold (\<lambda>v S. set_emplace compare_f (canonical_pair env ps reps v) S)
        (SubClusterCounter env (prototype g)) ?S1)"
    by (rule set_holds_mono) (rule fold_emplace_keeps)
  then show ?thesis
    unfolding add_custom_generator_unfold using a by simp
qed

lemma add_custom_generator_subcluster:
  "include_subclusters g \<Longrightarrow> s \<in> set (SubClusterCounter env (prototype g)) \<Longrightarrow>
     set_holds compare_f (canonical_pair env ps reps s)
       (add_custom_generator env ps reps compare_f g S)"
  unfolding add_custom_generator_unfold
  by (simp add: fold_emplace_holds)

lemma fold_custom_generators_keeps:
  "set S \<subseteq> set (fold (add_custom_generator env ps reps compare_f) gs S)"
proof (induction gs arbitrary: S)
  case Nil
  then show ?case by simp
next
  case (Cons g gs)
  have "set S \<subseteq> set (add_custom_generator env ps reps compare_f g S)"
    by (rule add_custom_generator_keeps)
  also have "\<dots> \<subseteq> set (fold (add_custom_generator env ps reps compare_f) gs
      (add_custom_generator env ps reps compare_f g S))"
    by (rule Cons.IH)
  finally show ?case by simp
qed

lemma fold_custom_generators_holds:
  assumes "g \<in> set gs"
    and "\<And>S. set_holds compare_f x (add_custom_generator env ps reps compare_f g S)"
  shows "set_holds compare_f x (fold (add_custom_generator env ps reps compare_f) gs S)"
  using assms(1)
proof (induction gs arbitrary: S)
  case Nil
  then show ?case by simp
next
  case (Cons a gs)
  show ?case
  proof (cases "g = a")
    case True
    have "set_holds compare_f x (add_custom_generator env ps reps compare_f a S)"
      using assms(2) True by simp
    then have "set_holds compare_f x (fold (add_custom_generator env ps reps compare_f) gs
        (add_custom_generator env ps reps compare_f a S))"
      by (rule set_holds_mono) (rule fold_custom_generators_keeps)
    then show ?thesis by simp
  next
    case False
    then have "g \<in> set gs" using Cons.prems by simp
    then show ?thesis using Cons.IH by simp
  qed
qed

lemma prim_periodic_final_fold:
  "\<exists>S. prim_periodic_final env ps reps site_filter max_length gs =
     fold (add_custom_generator env ps reps (CompareCluster_f env (prim_lattice_tol env ps))) gs S"
  unfolding prim_periodic_final_def Let_def
  by (cases "branch_loop env ps reps site_filter max_length
        (CompareCluster_f env (prim_lattice_tol env ps)) [1 ..< length max_length]
        (set_emplace (CompareCluster_f env (prim_lattice_tol env ps))
           (ClusterInvariants env [] ps, []) [],
         set_emplace (CompareCluster_f env (prim_lattice_tol env ps))
           (ClusterInvariants env [] ps, []) [])")
    (simp only: prod.case, blast)

text \<open>
  Claim C9. In \<^verbatim>\<open>make_prim_periodic_orbits\<close>, for every custom generator the canonicalised
  prototype is put into the set \<^verbatim>\<open>final\<close>, and with \<^verbatim>\<open>include_subclusters\<close> so is every
  canonicalised subcluster that \<^verbatim>\<open>SubClusterCounter\<close> produces, whatever the site filter and
  the cluster filters are; every cluster of \<^verbatim>\<open>final\<close> gets its orbit in the result. The step
  for a custom generator does not depend on the candidate site factories, through which the
  site filter acts, nor on the cluster filters.
\<close>

theorem custom_generators_bypass_filters:
  assumes g: "g \<in> set custom_generators"
  shows "set_holds (CompareCluster_f env (prim_lattice_tol env ps))
           (canonical_pair env ps reps (prototype g))
           (prim_periodic_final env ps reps site_filter max_length custom_generators)
    \<and> (include_subclusters g \<longrightarrow>
          (\<forall>s \<in> set (SubClusterCounter env (prototype g)).
             set_holds (CompareCluster_f env (prim_lattice_tol env ps))
               (canonical_pair env ps reps s)
               (prim_periodic_final env ps reps site_filter max_length custom_generators)))
    \<and> (\<forall>pair \<in> set (prim_periodic_final env ps reps site_filter max_length custom_generators).
          make_prim_periodic_orbit env (snd pair) reps
            \<in> set (make_prim_periodic_orbits env ps reps site_filter max_length custom_generators))
    \<and> add_custom_generator
          (env\<lparr>origin_neighborhood := n1, max_length_neighborhood := n2,
               all_clusters_filter := f1, max_length_cluster_filter := f2\<rparr>)
          ps reps compare_f g S
        = add_custom_generator env ps reps compare_f g S"
proof -
  let ?cmp = "CompareCluster_f env (prim_lattice_tol env ps)"
  obtain S0 where fin: "prim_periodic_final env ps reps site_filter max_length custom_generators =
      fold (add_custom_generator env ps reps ?cmp) custom_generators S0"
    using prim_periodic_final_fold [of env ps reps site_filter max_length custom_generators]
    by blast
  have a: "set_holds ?cmp (canonical_pair env ps reps (prototype g))
      (prim_periodic_final env ps reps site_filter max_length custom_generators)"
    unfolding fin using g by (rule fold_custom_generators_holds) (rule add_custom_generator_prototype)
  have b: "set_holds ?cmp (canonical_pair env ps reps s)
      (prim_periodic_final env ps reps site_filter max_length custom_generators)"
    if "include_subclusters g" "s \<in> set (SubClusterCounter env (prototype g))" for s
    unfolding fin using g
    by (rule fold_custom_generators_holds) (rule add_custom_generator_subcluster [OF that])
  have c: "make_prim_periodic_orbit env (snd pair) reps
      \<in> set (make_prim_periodic_orbits env ps reps site_filter max_length custom_generators)"
    if "pair \<in> set (prim_periodic_final env ps reps site_filter max_length custom_generators)"
    for pair
    using that by (simp add: make_prim_periodic_orbits_def)
  have d: "add_custom_generator
          (env\<lparr>origin_neighborhood := n1, max_length_neighborhood := n2,
               all_clusters_filter := f1, max_length_cluster_filter := f2\<rparr>)
          ps reps compare_f g S
        = add_custom_generator env ps reps compare_f g S"
    by (simp add: add_custom_generator_def make_canonical_def Let_def)
  show ?thesis using a b c d by blast
qed

lemma prim_periodic_final_ex:
  "prim_periodic_final clusterography_ex () [\<lambda>c. c] (\<lambda>s. False) [0, 0, 1] [pair_generator]
     = [(0, []), (1, [UnitCellCoord 0 (0, 0, 0)]),
        (2, [UnitCellCoord 0 (0, 0, 0), UnitCellCoord 0 (1, 0, 0)])]"
  by code_simp

lemma canonical_pair_ex:
  "canonical_pair clusterography_ex () [\<lambda>c. c] (prototype pair_generator)
     = (2, [UnitCellCoord 0 (0, 0, 0), UnitCellCoord 0 (1, 0, 0)])"
  "canonical_pair clusterography_ex () [\<lambda>c. c] [UnitCellCoord 0 (2, 0, 0)]
     = (1, [UnitCellCoord 0 (0, 0, 0)])"
  by code_simp+

lemma subclusters_ex:
  "[UnitCellCoord 0 (2, 0, 0)] \<in> set (SubClusterCounter clusterography_ex (prototype pair_generator))"
  by (simp add: clusterography_ex_def pair_generator_def)

theorem custom_generators_bypass_filters_witness:
  "pair_generator \<in> set [pair_generator]
   \<and> include_subclusters pair_generator
   \<and> [UnitCellCoord 0 (2, 0, 0)]
        \<in> set (SubClusterCounter clusterography_ex (prototype pair_generator))
   \<and> set_holds (CompareCluster_f clusterography_ex (prim_lattice_tol clusterography_ex ()))
        (2, [UnitCellCoord 0 (0, 0, 0), UnitCellCoord 0 (1, 0, 0)])
        (prim_periodic_final clusterography_ex () [\<lambda>c. c] (\<lambda>s. False) [0, 0, 1] [pair_generator])
   \<and> set_holds (CompareCluster_f clusterography_ex (prim_lattice_tol clusterography_ex ()))
        (1, [UnitCellCoord 0 (0, 0, 0)])
        (prim_periodic_final clusterography_ex () [\<lambda>c. c] (\<lambda>s. False) [0, 0, 1] [pair_generator])
   \<and> prim_periodic_final clusterography_ex () [\<lambda>c. c] (\<lambda>s. False) [0, 0, 1] [pair_generator]
        = [(0, []), (1, [UnitCellCoord 0 (0, 0, 0)]),
           (2, [UnitCellCoord 0 (0, 0, 0), UnitCellCoord 0 (1, 0, 0)])]
   \<and> make_prim_periodic_orbit clusterography_ex
          [UnitCellCoord 0 (0, 0, 0), UnitCellCoord 0 (1, 0, 0)] [\<lambda>c. c]
        \<in> set (make_prim_periodic_orbits clusterography_ex () [\<lambda>c. c] (\<lambda>s. False) [0, 0, 1]
                 [pair_generator])"
proof -
  have g: "pair_generator \<in> set [pair_generator]" by simp
  have i: "include_subclusters pair_generator" by (simp add: pair_generator_def)
  note th = custom_generators_bypass_filters
    [OF g, where env = clusterography_ex and ps = "()" and reps = "[\<lambda>c. c]"
       and site_filter = "\<lambda>s. False" and max_length = "[0, 0, 1]"]
  from th have a: "set_holds (CompareCluster_f clusterography_ex (prim_lattice_tol clusterography_ex ()))
        (canonical_pair clusterography_ex () [\<lambda>c. c] (prototype pair_generator))
        (prim_periodic_final clusterography_ex () [\<lambda>c. c] (\<lambda>s. False) [0, 0, 1] [pair_generator])"
    by blast
  from th i subclusters_ex
  have b: "set_holds (CompareCluster_f clusterography_ex (prim_lattice_tol clusterography_ex ()))
        (canonical_pair clusterography_ex () [\<lambda>c. c] [UnitCellCoord 0 (2, 0, 0)])
        (prim_periodic_final clusterography_ex () [\<lambda>c. c] (\<lambda>s. False) [0, 0, 1] [pair_generator])"
    by blast
  have m: "(2, [UnitCellCoord 0 (0, 0, 0), UnitCellCoord 0 (1, 0, 0)])
      \<in> set (prim_periodic_final clusterography_ex () [\<lambda>c. c] (\<lambda>s. False) [0, 0, 1]
               [pair_generator])"
    unfolding prim_periodic_final_ex by simp
  from th m have o: "make_prim_periodic_orbit clusterography_ex
        (snd (2 :: nat, [UnitCellCoord 0 (0, 0, 0), UnitCellCoord 0 (1, 0, 0)])) [\<lambda>c. c]
      \<in> set (make_prim_periodic_orbits clusterography_ex () [\<lambda>c. c] (\<lambda>s. False) [0, 0, 1]
               [pair_generator])"
    by blast
  show ?thesis
    using g i subclusters_ex a b prim_periodic_final_ex o
    unfolding canonical_pair_ex snd_conv by blast
qed

end
